theory Spec2Isabelle
  imports Complex_Main
begin

section \<open>Numbers and array reads\<close>

text \<open>
  The source is TypeScript: every coordinate is a JavaScript \<open>number\<close>. A finite number
  is modelled by a rational and arithmetic on finite numbers is exact (rounding and
  overflow to an infinity are outside the model); \<open>NaN\<close> is kept, because it is what
  arithmetic on \<open>undefined\<close> produces, and every comparison with it is false.
\<close>

datatype number = Num rat | NaN

instantiation number :: "{plus, minus, times}"
begin

fun plus_number :: "number \<Rightarrow> number \<Rightarrow> number" where
  "plus_number (Num a) (Num b) = Num (a + b)"
| "plus_number _ _ = NaN"

fun minus_number :: "number \<Rightarrow> number \<Rightarrow> number" where
  "minus_number (Num a) (Num b) = Num (a - b)"
| "minus_number _ _ = NaN"

fun times_number :: "number \<Rightarrow> number \<Rightarrow> number" where
  "times_number (Num a) (Num b) = Num (a * b)"
| "times_number _ _ = NaN"

instance ..

end

text \<open>\<open>a <= b\<close>, \<open>a < b\<close> and \<open>Math.abs\<close> on numbers.\<close>

fun num_le :: "number \<Rightarrow> number \<Rightarrow> bool" where
  "num_le (Num a) (Num b) = (a \<le> b)"
| "num_le _ _ = False"

fun num_lt :: "number \<Rightarrow> number \<Rightarrow> bool" where
  "num_lt (Num a) (Num b) = (a < b)"
| "num_lt _ _ = False"

fun Math_abs :: "number \<Rightarrow> number" where
  "Math_abs (Num a) = Num \<bar>a\<bar>"
| "Math_abs NaN = NaN"

text \<open>
  \<open>xs[i]\<close> on an array: the element, or \<open>undefined\<close> (\<open>None\<close>) when \<open>i\<close> is not an
  index of the array. It never throws.
\<close>

definition rd :: "'a list \<Rightarrow> int \<Rightarrow> 'a option" where
  "rd xs i = (if 0 \<le> i \<and> i < int (length xs) then Some (xs ! nat i) else None)"

text \<open>An operand of an arithmetic operator: \<open>undefined\<close> is converted to \<open>NaN\<close>.\<close>

fun toNumber :: "number option \<Rightarrow> number" where
  "toNumber (Some v) = v"
| "toNumber None = NaN"

section \<open>Stroke\<close>

text \<open>
  \<open>path\<close> is the flat array \<open>[x0, y0, x1, y1, ...]\<close>. \<open>sid\<close> is the field \<open>id\<close>,
  taken from the static counter \<open>Stroke.masterId\<close>, which the constructor receives and
  returns incremented.
\<close>

record Stroke =
  path :: "number list"
  startX :: "number option"
  startY :: "number option"
  sid :: nat

definition setStart :: "Stroke \<Rightarrow> number option \<Rightarrow> number option \<Rightarrow> Stroke" where
  "setStart s x y = s\<lparr>startX := x, startY := y\<rparr>"

definition new_Stroke :: "nat \<Rightarrow> number list \<Rightarrow> Stroke \<times> nat" where
  "new_Stroke masterId p =
     (let s = \<lparr>path = p, startX = None, startY = None, sid = masterId\<rparr>
      in (if length p \<noteq> 0 then setStart s (rd p 0) (rd p 1) else s, masterId + 1))"

definition addToPath :: "Stroke \<Rightarrow> number \<Rightarrow> number \<Rightarrow> Stroke" where
  "addToPath s offsetX offsetY =
     (let s1 = (if length (path s) = 0 then setStart s (Some offsetX) (Some offsetY) else s)
      in s1\<lparr>path := path s1 @ [offsetX, offsetY]\<rparr>)"

text \<open>\<open>Stroke.isEmpty\<close>; a tile has a method of the same name, \<open>isEmpty\<close> below.\<close>

definition isEmptyStroke :: "Stroke \<Rightarrow> bool" where
  "isEmptyStroke s = (length (path s) = 0)"

definition getPathVertex :: "Stroke \<Rightarrow> int \<Rightarrow> number option \<times> number option" where
  "getPathVertex s index = (rd (path s) (index * 2), rd (path s) (index * 2 + 1))"

definition getID :: "Stroke \<Rightarrow> nat" where
  "getID s = sid s"

text \<open>\<open>path.length / 2\<close>: a half-integer when the array has odd length.\<close>

definition getLength :: "Stroke \<Rightarrow> rat" where
  "getLength s = of_nat (length (path s)) / 2"

definition bezier :: "number \<Rightarrow> number \<Rightarrow> number \<Rightarrow> number \<Rightarrow> number \<Rightarrow> number \<Rightarrow> number \<times> number" where
  "bezier x0 y0 x1 y1 x2 y2 =
     (Num ((1/2)^2) * x0 + Num 2 * Num ((1/2)^2) * x1 + Num ((1/2)^2) * x2,
      Num ((1/2)^2) * y0 + Num 2 * Num ((1/2)^2) * y1 + Num ((1/2)^2) * y2)"

text \<open>
  The loop of \<open>smoothPath\<close>, from counter \<open>i\<close>. The two writes are inside the array:
  the loop starts at \<open>i = 2\<close> and runs while \<open>i < path.length / 2\<close>.
\<close>

function smoothLoop :: "number list \<Rightarrow> nat \<Rightarrow> number list" where
  "smoothLoop p i =
     (if of_nat i < (of_nat (length p) / 2 :: rat) then
        (case bezier (toNumber (rd p (int i * 2 - 4))) (toNumber (rd p (int i * 2 - 3)))
                     (toNumber (rd p (int i * 2 - 2))) (toNumber (rd p (int i * 2 - 1)))
                     (toNumber (rd p (int i * 2))) (toNumber (rd p (int i * 2 + 1))) of
           (x, y) \<Rightarrow> smoothLoop (p[i * 2 - 2 := x, i * 2 - 1 := y]) (i + 1))
      else p)"
  by pat_completeness auto
termination
  by (relation "measure (\<lambda>(p, i). length p - i)") auto

declare smoothLoop.simps [simp del]

definition smoothPath :: "Stroke \<Rightarrow> Stroke" where
  "smoothPath s = s\<lparr>path := smoothLoop (path s) 2\<rparr>"

text \<open>
  The iterator of a stroke (\<open>Symbol.iterator\<close>): the vertices from \<open>index\<close> on, while
  \<open>index < getLength()\<close>.
\<close>

function iterFrom :: "Stroke \<Rightarrow> nat \<Rightarrow> (number option \<times> number option) list" where
  "iterFrom s index =
     (if of_nat index < getLength s then getPathVertex s (int index) # iterFrom s (index + 1)
      else [])"
  by pat_completeness auto
termination
  by (relation "measure (\<lambda>(s, index). length (path s) - index)") (auto simp: getLength_def)

declare iterFrom.simps [simp del]

definition iterator :: "Stroke \<Rightarrow> (number option \<times> number option) list" where
  "iterator s = iterFrom s 0"

text \<open>
  The blend the specification names: \<open>P' = 0.25*P0 + 0.5*P1 + 0.25*P2\<close>, on one
  coordinate. It is compared below with what \<open>bezier\<close> computes.
\<close>

definition blend :: "number \<Rightarrow> number \<Rightarrow> number \<Rightarrow> number" where
  "blend a b c = Num (1/4) * a + Num (1/2) * b + Num (1/4) * c"

section \<open>Tile\<close>

text \<open>
  The fields \<open>startX\<close> and \<open>startY\<close> of a tile are named \<open>tileStartX\<close> and
  \<open>tileStartY\<close> here, since a stroke has fields of the same names. The field
  \<open>neighboringTiles\<close> is never assigned nor read in the source and is left out.
\<close>

definition Tile_size :: number where
  "Tile_size = Num 2000"

record Tile =
  tileStartX :: number
  tileStartY :: number
  endX :: number
  endY :: number
  strokes :: "Stroke list"
  strokeIDs :: "nat list"

definition new_Tile :: "number \<Rightarrow> number \<Rightarrow> Tile" where
  "new_Tile x y =
     \<lparr>tileStartX = x, tileStartY = y, endX = x + Tile_size, endY = y + Tile_size,
      strokes = [], strokeIDs = []\<rparr>"

definition addStroke :: "Tile \<Rightarrow> Stroke \<Rightarrow> Tile" where
  "addStroke t stroke =
     t\<lparr>strokes := strokes t @ [stroke], strokeIDs := strokeIDs t @ [getID stroke]\<rparr>"

definition removeStroke :: "Tile \<Rightarrow> nat \<Rightarrow> Tile" where
  "removeStroke t strokeID =
     (if strokeID \<notin> set (strokeIDs t) then t
      else t\<lparr>strokes := filter (\<lambda>s. getID s \<noteq> strokeID) (strokes t),
             strokeIDs := filter (\<lambda>s. s \<noteq> strokeID) (strokeIDs t)\<rparr>)"

definition isEmpty :: "Tile \<Rightarrow> bool" where
  "isEmpty t = (length (strokeIDs t) = 0)"

definition numElements :: "Tile \<Rightarrow> nat" where
  "numElements t = length (strokes t)"

definition getStrokes :: "Tile \<Rightarrow> Stroke list" where
  "getStrokes t = strokes t"

definition getStroke :: "Tile \<Rightarrow> int \<Rightarrow> Stroke option" where
  "getStroke t index = rd (strokes t) index"

definition enclosesVertex :: "Tile \<Rightarrow> number \<Rightarrow> number \<Rightarrow> bool" where
  "enclosesVertex t x y =
     (num_le (Num 0) (x - tileStartX t) \<and> num_lt (Num 0) (endX t - x) \<and>
      num_le (Num 0) (y - tileStartY t) \<and> num_lt (Num 0) (endY t - y))"

section \<open>The canvas: drawing and erasing\<close>

text \<open>
  The mutable variables of the component and the counter \<open>Stroke.masterId\<close> make up the
  state. Calls to the rendering context draw pixels and change none of these variables;
  they are left out, except that \<open>erase\<close> returns the list it hands to \<open>redraw\<close>.
\<close>

datatype error = TypeError

record canvas =
  isDrawing :: bool
  isErasing :: bool
  currStroke :: Stroke
  onScreenTiles :: "Tile list"
  lastX :: number
  lastY :: number
  masterId :: nat

definition withinSquare :: "number \<Rightarrow> number \<Rightarrow> number \<Rightarrow> number \<Rightarrow> number \<Rightarrow> bool" where
  "withinSquare x1 y1 x2 y2 len =
     (num_le (Math_abs (x1 - x2)) len \<and> num_le (Math_abs (y1 - y2)) len)"

text \<open>
  \<open>getTile\<close> returns a reference to the first tile that encloses the point, or \<open>null\<close>.
  The reference is the position of the tile in the list.
\<close>

fun getTile :: "Tile list \<Rightarrow> number \<Rightarrow> number \<Rightarrow> nat option" where
  "getTile [] x y = None"
| "getTile (tile # tiles) x y =
     (if enclosesVertex tile x y then Some 0 else map_option Suc (getTile tiles x y))"

text \<open>
  The inner loop of \<open>erase\<close>, over the coordinates of one stroke: does it reach the
  body of the \<open>if\<close>? (\<open>sz\<close> is the source's \<open>size\<close>.) A coordinate that is \<open>undefined\<close> becomes \<open>NaN\<close> in the subtraction.
\<close>

definition strokeHit :: "Stroke \<Rightarrow> number \<Rightarrow> number \<Rightarrow> number \<Rightarrow> bool" where
  "strokeHit s offsetX offsetY sz =
     list_ex (\<lambda>coord. withinSquare offsetX offsetY (toNumber (fst coord)) (toNumber (snd coord)) sz)
       (iterator s)"

text \<open>
  The outer loop \<open>loop1\<close>, with \<open>i + 1\<close> as its counter: the index of the stroke at which
  it breaks, or \<open>None\<close> when it runs down to \<open>i < 0\<close>.
\<close>

fun eraseLoop :: "Stroke list \<Rightarrow> number \<Rightarrow> number \<Rightarrow> number \<Rightarrow> nat \<Rightarrow> nat option" where
  "eraseLoop ss offsetX offsetY sz 0 = None"
| "eraseLoop ss offsetX offsetY sz (Suc i) =
     (if strokeHit (ss ! i) offsetX offsetY sz then Some i
      else eraseLoop ss offsetX offsetY sz i)"

text \<open>
  \<open>erase\<close> returns the state and the argument of \<open>redraw\<close> when it was called, or, when
  it throws, the error and the state at that moment. \<open>currentTile.isEmpty()\<close> on \<open>null\<close>
  throws a \<open>TypeError\<close>.
\<close>

definition erase :: "canvas \<Rightarrow> number \<Rightarrow> number \<Rightarrow> (error \<times> canvas) + (canvas \<times> Stroke list option)" where
  "erase st offsetX offsetY =
     (if \<not> isErasing st then Inr (st, None)
      else if withinSquare offsetX offsetY (lastX st) (lastY st) (Num 5) then Inr (st, None)
      else (case getTile (onScreenTiles st) offsetX offsetY of
        None \<Rightarrow> Inl (TypeError, st)
      | Some k \<Rightarrow>
          (let currentTile = onScreenTiles st ! k in
           if isEmpty currentTile then Inr (st, None)
           else
             (let st1 = st\<lparr>lastX := offsetX, lastY := offsetY\<rparr>;
                  allStrokes = getStrokes currentTile;
                  sz = Num 5
              in (case eraseLoop (getStrokes currentTile) offsetX offsetY sz (numElements currentTile) of
                    None \<Rightarrow> Inr (st1, None)
                  | Some i \<Rightarrow>
                      Inr (st1\<lparr>onScreenTiles := (onScreenTiles st1)
                                 [k := removeStroke currentTile (getID (getStrokes currentTile ! i))]\<rparr>,
                           Some (take i allStrokes @ drop (Suc i) allStrokes)))))))"

definition startErase :: "canvas \<Rightarrow> number \<Rightarrow> number \<Rightarrow> (error \<times> canvas) + (canvas \<times> Stroke list option)" where
  "startErase st offsetX offsetY = erase (st\<lparr>isErasing := True\<rparr>) offsetX offsetY"

definition endErase :: "canvas \<Rightarrow> canvas" where
  "endErase st = st\<lparr>isErasing := False\<rparr>"

definition startDraw :: "canvas \<Rightarrow> number \<Rightarrow> number \<Rightarrow> canvas" where
  "startDraw st offsetX offsetY =
     st\<lparr>isDrawing := True, currStroke := addToPath (currStroke st) offsetX offsetY\<rparr>"

definition draw :: "canvas \<Rightarrow> number \<Rightarrow> number \<Rightarrow> canvas" where
  "draw st offsetX offsetY =
     (if \<not> isDrawing st then st
      else st\<lparr>currStroke := addToPath (currStroke st) offsetX offsetY\<rparr>)"

text \<open>\<open>onScreenTiles[0].addStroke\<close> throws a \<open>TypeError\<close> when the list is empty.\<close>

definition endDraw :: "canvas \<Rightarrow> (error \<times> canvas) + canvas" where
  "endDraw st =
     (let st1 = st\<lparr>isDrawing := False\<rparr> in
      if isEmptyStroke (currStroke st1) then Inr st1
      else
        let st2 = st1\<lparr>currStroke := smoothPath (currStroke st1)\<rparr> in
        case rd (onScreenTiles st2) 0 of
          None \<Rightarrow> Inl (TypeError, st2)
        | Some tile0 \<Rightarrow>
            (case new_Stroke (masterId st2) [] of
               (s, m) \<Rightarrow>
                 Inr (st2\<lparr>onScreenTiles := (onScreenTiles st2)[0 := addStroke tile0 (currStroke st2)],
                          currStroke := s, masterId := m\<rparr>)))"

subsection \<open>Pointer events\<close>

text \<open>
  \<open>PointerLeave\<close> is handled by \<open>pointerUp\<close>, as \<open>onPointerLeave\<close> is. The state a
  handler leaves behind is the one it returns or the one at which it threw.
\<close>

datatype event =
    PointerDown int number number
  | PointerUp int
  | PointerMove number number
  | PointerLeave int

definition pointerDown :: "canvas \<Rightarrow> int \<Rightarrow> number \<Rightarrow> number \<Rightarrow> (error \<times> canvas) + canvas" where
  "pointerDown st button offsetX offsetY =
     (if button = 0 then Inr (startDraw st offsetX offsetY)
      else if button = 2 then map_sum id fst (startErase st offsetX offsetY)
      else Inr st)"

definition pointerUp :: "canvas \<Rightarrow> int \<Rightarrow> (error \<times> canvas) + canvas" where
  "pointerUp st button =
     (case (if button = 0 \<or> button = - 1 then endDraw st else Inr st) of
        Inl e \<Rightarrow> Inl e
      | Inr st1 \<Rightarrow> Inr (if button = 2 \<or> button = - 1 then endErase st1 else st1))"

definition pointerMove :: "canvas \<Rightarrow> number \<Rightarrow> number \<Rightarrow> (error \<times> canvas) + canvas" where
  "pointerMove st offsetX offsetY = map_sum id fst (erase (draw st offsetX offsetY) offsetX offsetY)"

fun handleEvent :: "canvas \<Rightarrow> event \<Rightarrow> (error \<times> canvas) + canvas" where
  "handleEvent st (PointerDown button x y) = pointerDown st button x y"
| "handleEvent st (PointerUp button) = pointerUp st button"
| "handleEvent st (PointerMove x y) = pointerMove st x y"
| "handleEvent st (PointerLeave button) = pointerUp st button"

fun stateAfter :: "(error \<times> canvas) + canvas \<Rightarrow> canvas" where
  "stateAfter (Inl (e, st)) = st"
| "stateAfter (Inr st) = st"

text \<open>The state after a sequence of events, each handled to its end before the next.\<close>

definition run :: "canvas \<Rightarrow> event list \<Rightarrow> canvas" where
  "run st evs = foldl (\<lambda>s ev. stateAfter (handleEvent s ev)) st evs"

text \<open>
  The state once the component is mounted: \<open>currStroke = new Stroke()\<close> took the first
  id, and the effect pushed the one tile at the origin.
\<close>

definition initial :: canvas where
  "initial =
     (case new_Stroke 0 [] of
        (s, m) \<Rightarrow>
          \<lparr>isDrawing = False, isErasing = False, currStroke = s,
           onScreenTiles = [new_Tile (Num 0) (Num 0)],
           lastX = Num 0, lastY = Num 0, masterId = m\<rparr>)"

inductive reachable :: "canvas \<Rightarrow> bool" where
  reachable_initial: "reachable initial"
| reachable_event: "reachable st \<Longrightarrow> reachable (stateAfter (handleEvent st ev))"

text \<open>The tiles that calls of \<open>addStroke\<close> and \<open>removeStroke\<close> lead to from a new tile.\<close>

inductive tile_reach :: "Tile \<Rightarrow> bool" where
  tile_new: "tile_reach (new_Tile x y)"
| tile_add: "tile_reach t \<Longrightarrow> tile_reach (addStroke t s)"
| tile_remove: "tile_reach t \<Longrightarrow> tile_reach (removeStroke t strokeID)"

text \<open>
  What the handlers keep true of every tile: the two arrays agree, no id is stored twice,
  and every id in use is below the counter, the one of the stroke being drawn in no tile.
\<close>

definition tile_ok :: "nat \<Rightarrow> Tile \<Rightarrow> bool" where
  "tile_ok m t =
     (strokeIDs t = map getID (strokes t) \<and> distinct (strokeIDs t) \<and>
      (\<forall>i \<in> set (strokeIDs t). i < m))"

definition canvas_ok :: "canvas \<Rightarrow> bool" where
  "canvas_ok st =
     ((\<forall>t \<in> set (onScreenTiles st). tile_ok (masterId st) t \<and> getID (currStroke st) \<notin> set (strokeIDs t)) \<and>
      getID (currStroke st) < masterId st)"

section \<open>Smoothing\<close>

text \<open>What \<open>bezier\<close> computes is the blend of the specification, on each coordinate.\<close>

lemma bezier_blend: "bezier x0 y0 x1 y1 x2 y2 = (blend x0 x1 x2, blend y0 y1 y2)"
  by (cases x0; cases x1; cases x2; cases y0; cases y1; cases y2)
     (simp_all add: bezier_def blend_def power2_eq_square)

lemma smoothLoop_step:
  "of_nat i < (of_nat (length p) / 2 :: rat) \<Longrightarrow>
   smoothLoop p i =
     smoothLoop (p[i * 2 - 2 := blend (toNumber (rd p (int i * 2 - 4))) (toNumber (rd p (int i * 2 - 2)))
                                      (toNumber (rd p (int i * 2))),
                   i * 2 - 1 := blend (toNumber (rd p (int i * 2 - 3))) (toNumber (rd p (int i * 2 - 1)))
                                      (toNumber (rd p (int i * 2 + 1)))]) (i + 1)"
  by (subst smoothLoop.simps) (simp add: bezier_blend)

lemma smoothLoop_stop:
  "\<not> of_nat i < (of_nat (length p) / 2 :: rat) \<Longrightarrow> smoothLoop p i = p"
  by (subst smoothLoop.simps) simp

lemma half_less: "(of_nat i < (of_nat n / 2 :: rat)) = (2 * i < n)"
proof -
  have "(of_nat i < (of_nat n / 2 :: rat)) = ((of_nat (2 * i) :: rat) < of_nat n)"
    by (simp add: field_simps)
  also have "\<dots> = (2 * i < n)" by (simp only: of_nat_less_iff)
  finally show ?thesis .
qed

lemma length_smoothLoop: "length (smoothLoop p i) = length p"
proof (induction p i rule: smoothLoop.induct)
  case (1 p i)
  show ?case
  proof (cases "of_nat i < (of_nat (length p) / 2 :: rat)")
    case True
    have "length (smoothLoop p i) = length (smoothLoop (p[i * 2 - 2 := blend (toNumber (rd p (int i * 2 - 4))) (toNumber (rd p (int i * 2 - 2)))
                                      (toNumber (rd p (int i * 2))),
                   i * 2 - 1 := blend (toNumber (rd p (int i * 2 - 3))) (toNumber (rd p (int i * 2 - 1)))
                                      (toNumber (rd p (int i * 2 + 1)))]) (i + 1))"
      by (simp only: smoothLoop_step[OF True])
    also have "\<dots> = length p"
      using "1.IH"[OF True] by (simp add: bezier_blend)
    finally show ?thesis .
  next
    case False
    then show ?thesis by (simp add: smoothLoop_stop)
  qed
qed

lemma smoothLoop_low: "j + 2 < 2 * i \<Longrightarrow> smoothLoop p i ! j = p ! j"
proof (induction p i rule: smoothLoop.induct)
  case (1 p i)
  show ?case
  proof (cases "of_nat i < (of_nat (length p) / 2 :: rat)")
    case True
    have "smoothLoop p i ! j = (p[i * 2 - 2 := blend (toNumber (rd p (int i * 2 - 4))) (toNumber (rd p (int i * 2 - 2)))
                                      (toNumber (rd p (int i * 2))),
                   i * 2 - 1 := blend (toNumber (rd p (int i * 2 - 3))) (toNumber (rd p (int i * 2 - 1)))
                                      (toNumber (rd p (int i * 2 + 1)))]) ! j"
      using "1.IH"[OF True] "1.prems" by (simp add: smoothLoop_step[OF True] bezier_blend)
    also have "\<dots> = p ! j" using "1.prems" by simp
    finally show ?thesis .
  next
    case False
    then show ?thesis by (simp add: smoothLoop_stop)
  qed
qed

lemma smoothLoop_high:
  "even (length p) \<Longrightarrow> 2 \<le> i \<Longrightarrow> length p \<le> j + 2 \<Longrightarrow> smoothLoop p i ! j = p ! j"
proof (induction p i rule: smoothLoop.induct)
  case (1 p i)
  show ?case
  proof (cases "of_nat i < (of_nat (length p) / 2 :: rat)")
    case True
    then have lt: "2 * i < length p" by (simp add: half_less)
    have "smoothLoop p i ! j = (p[i * 2 - 2 := blend (toNumber (rd p (int i * 2 - 4))) (toNumber (rd p (int i * 2 - 2)))
                                      (toNumber (rd p (int i * 2))),
                   i * 2 - 1 := blend (toNumber (rd p (int i * 2 - 3))) (toNumber (rd p (int i * 2 - 1)))
                                      (toNumber (rd p (int i * 2 + 1)))]) ! j"
      using "1.IH"[OF True] "1.prems" by (simp add: smoothLoop_step[OF True] bezier_blend)
    also have "\<dots> = p ! j"
    proof -
      from "1.prems" lt have "2 * i + 2 \<le> length p" by presburger
      with "1.prems" have "i * 2 - 2 \<noteq> j" "i * 2 - 1 \<noteq> j" by linarith+
      then show ?thesis by simp
    qed
    finally show ?thesis .
  next
    case False
    then show ?thesis by (simp add: smoothLoop_stop)
  qed
qed

lemma rd_in: "0 \<le> i \<Longrightarrow> i < int (length xs) \<Longrightarrow> rd xs i = Some (xs ! nat i)"
  by (simp add: rd_def)

lemma smoothLoop_mid:
  "even (length p) \<Longrightarrow> 2 \<le> i \<Longrightarrow> 2 * i \<le> j + 2 \<Longrightarrow> j + 2 < length p \<Longrightarrow>
   smoothLoop p i ! j = blend (smoothLoop p i ! (j - 2)) (p ! j) (p ! (j + 2))"
proof (induction p i rule: smoothLoop.induct)
  case (1 p i)
  let ?x = "blend (toNumber (rd p (int i * 2 - 4))) (toNumber (rd p (int i * 2 - 2)))
                                      (toNumber (rd p (int i * 2)))"
  let ?y = "blend (toNumber (rd p (int i * 2 - 3))) (toNumber (rd p (int i * 2 - 1)))
                                      (toNumber (rd p (int i * 2 + 1)))"
  let ?p = "p[i * 2 - 2 := ?x, i * 2 - 1 := ?y]"
  from "1.prems" have lt: "2 * i < length p" by linarith
  then have c: "of_nat i < (of_nat (length p) / 2 :: rat)" by (simp add: half_less)
  have res: "smoothLoop p i = smoothLoop ?p (i + 1)" by (rule smoothLoop_step[OF c])
  have ev: "even (length ?p)" using "1.prems" by simp
  show ?case
  proof (cases "j < 2 * i")
    case True
    then have jj: "j = 2 * i - 2 \<or> j = 2 * i - 1" using "1.prems" by linarith
    have a: "smoothLoop ?p (i + 1) ! j = ?p ! j"
      using True by (intro smoothLoop_low) simp
    have b: "smoothLoop ?p (i + 1) ! (j - 2) = ?p ! (j - 2)"
      using True by (intro smoothLoop_low) simp
    have b': "?p ! (j - 2) = p ! (j - 2)" using jj "1.prems" by auto
    have "?p ! j = blend (p ! (j - 2)) (p ! j) (p ! (j + 2))"
    proof -
      from jj show ?thesis
      proof
        assume j: "j = 2 * i - 2"
        have r1: "rd p (int i * 2 - 4) = Some (p ! (j - 2))"
          using "1.prems" lt j by (subst rd_in) (auto simp: nat_diff_distrib nat_mult_distrib intro: arg_cong[where f="nth p"])
        have r2: "rd p (int i * 2 - 2) = Some (p ! j)"
          using "1.prems" lt j by (subst rd_in) (auto simp: nat_diff_distrib nat_mult_distrib intro: arg_cong[where f="nth p"])
        have r3: "rd p (int i * 2) = Some (p ! (j + 2))"
          using "1.prems" lt j by (subst rd_in) (auto simp: nat_diff_distrib nat_mult_distrib intro: arg_cong[where f="nth p"])
        have "?p ! j = ?x" using j lt "1.prems" by (simp add: mult.commute)
        then show ?thesis by (simp add: r1 r2 r3)
      next
        assume j: "j = 2 * i - 1"
        have r1: "rd p (int i * 2 - 3) = Some (p ! (j - 2))"
          using "1.prems" lt j by (subst rd_in) (auto simp: nat_diff_distrib nat_mult_distrib intro: arg_cong[where f="nth p"])
        have r2: "rd p (int i * 2 - 1) = Some (p ! j)"
          using "1.prems" lt j by (subst rd_in) (auto simp: nat_diff_distrib nat_mult_distrib intro: arg_cong[where f="nth p"])
        have r3: "rd p (int i * 2 + 1) = Some (p ! (j + 2))"
          using "1.prems" lt j by (subst rd_in) (auto simp: nat_diff_distrib nat_mult_distrib nat_add_distrib intro: arg_cong[where f="nth p"])
        have "?p ! j = ?y" using j lt "1.prems" by (simp add: mult.commute)
        then show ?thesis by (simp add: r1 r2 r3)
      qed
    qed
    with a b b' res show ?thesis by simp
  next
    case False
    have ih: "smoothLoop ?p (i + 1) ! j = blend (smoothLoop ?p (i + 1) ! (j - 2)) (?p ! j) (?p ! (j + 2))"
      using "1.IH"[OF c _ ev] "1.prems" False by (simp add: bezier_blend)
    from False "1.prems" have "i * 2 - 2 \<noteq> j" "i * 2 - 1 \<noteq> j"
      "i * 2 - 2 \<noteq> j + 2" "i * 2 - 1 \<noteq> j + 2" by linarith+
    then have "?p ! j = p ! j" "?p ! (j + 2) = p ! (j + 2)" by simp_all
    with ih res show ?thesis by simp
  qed
qed

text \<open>
  A stroke starts with an empty array and grows by \<open>addToPath\<close> alone, two numbers at a
  time: its array has even length.
\<close>

lemma new_Stroke_even: "even (length (path (fst (new_Stroke m []))))"
  by (simp add: new_Stroke_def)

lemma addToPath_even: "even (length (path s)) \<Longrightarrow> even (length (path (addToPath s x y)))"
  by (simp add: addToPath_def setStart_def Let_def)

lemma getPathVertex_in:
  "2 * k + 1 < length (path s) \<Longrightarrow>
   getPathVertex s (int k) = (Some (path s ! (2 * k)), Some (path s ! (2 * k + 1)))"
  by (simp add: getPathVertex_def rd_def nat_mult_distrib nat_add_distrib mult.commute)

lemma getLength_less: "(of_nat k < getLength s) = (2 * k < length (path s))"
  unfolding getLength_def by (rule half_less)

lemma path_smoothPath: "path (smoothPath s) = smoothLoop (path s) 2"
  by (simp add: smoothPath_def)

text \<open>
  Claim C1. On a stroke of at least three points (its array holding both coordinates of
  each), \<open>smoothPath\<close> keeps the number of points, the first point and the last point,
  and sets every interior point \<open>k\<close> to \<open>0.25 * P0 + 0.5 * P1 + 0.25 * P2\<close>, where
  \<open>P1\<close> and \<open>P2\<close> are the points \<open>k\<close> and \<open>k + 1\<close> before the call and \<open>P0\<close> is
  point \<open>k - 1\<close> after it: the pass runs in place from left to right and reads the
  point it has just smoothed. On the path \<open>(0,0), (10,0), (10,10), (0,10)\<close> this gives
  \<open>(7.5, 2.5)\<close> and \<open>(6.875, 8.125)\<close> for points 1 and 2, and leaves the two ends.
\<close>

theorem smoothPath_interior_points:
  "(even (length (path s)) \<and> 3 \<le> getLength s \<longrightarrow>
      length (path (smoothPath s)) = length (path s) \<and>
      getPathVertex (smoothPath s) 0 = getPathVertex s 0 \<and>
      (\<forall>n. of_nat (n + 1) = getLength s \<longrightarrow> getPathVertex (smoothPath s) (int n) = getPathVertex s (int n)) \<and>
      (\<forall>k. 1 \<le> k \<and> of_nat (k + 1) < getLength s \<longrightarrow>
         (\<exists>x0 y0 x1 y1 x2 y2.
            getPathVertex (smoothPath s) (int k - 1) = (Some x0, Some y0) \<and>
            getPathVertex s (int k) = (Some x1, Some y1) \<and>
            getPathVertex s (int k + 1) = (Some x2, Some y2) \<and>
            getPathVertex (smoothPath s) (int k) =
              (Some (Num (1/4) * x0 + Num (1/2) * x1 + Num (1/4) * x2),
               Some (Num (1/4) * y0 + Num (1/2) * y1 + Num (1/4) * y2))))) \<and>
   path (smoothPath \<lparr>path = [Num 0, Num 0, Num 10, Num 0, Num 10, Num 10, Num 0, Num 10],
                     startX = Some (Num 0), startY = Some (Num 0), sid = 0\<rparr>) =
     [Num 0, Num 0, Num (15/2), Num (5/2), Num (55/8), Num (65/8), Num 0, Num 10]"
proof (intro conjI impI allI)
  show "path (smoothPath \<lparr>path = [Num 0, Num 0, Num 10, Num 0, Num 10, Num 10, Num 0, Num 10],
                     startX = Some (Num 0), startY = Some (Num 0), sid = 0\<rparr>) =
     [Num 0, Num 0, Num (15/2), Num (5/2), Num (55/8), Num (65/8), Num 0, Num 10]"
    by code_simp
next
  assume "even (length (path s)) \<and> 3 \<le> getLength s"
  show "length (path (smoothPath s)) = length (path s)"
    by (simp add: path_smoothPath length_smoothLoop)
next
  assume a: "even (length (path s)) \<and> 3 \<le> getLength s"
  then have len: "6 \<le> length (path s)" by (simp add: getLength_def)
  have "smoothLoop (path s) 2 ! 0 = path s ! 0" "smoothLoop (path s) 2 ! 1 = path s ! 1"
    by (rule smoothLoop_low, simp)+
  then show "getPathVertex (smoothPath s) 0 = getPathVertex s 0"
    using len by (simp add: getPathVertex_def rd_def path_smoothPath length_smoothLoop)
next
  fix n
  assume a: "even (length (path s)) \<and> 3 \<le> getLength s" and n: "of_nat (n + 1) = getLength s"
  from n have "(of_nat (2 * (n + 1)) :: rat) = of_nat (length (path s))"
    by (simp add: getLength_def field_simps)
  then have len: "length (path s) = 2 * n + 2" by (simp only: of_nat_eq_iff) simp
  have "smoothLoop (path s) 2 ! (2 * n) = path s ! (2 * n)"
    "smoothLoop (path s) 2 ! (2 * n + 1) = path s ! (2 * n + 1)"
    using a len by (intro smoothLoop_high; simp)+
  then show "getPathVertex (smoothPath s) (int n) = getPathVertex s (int n)"
    using len getPathVertex_in[of n s] getPathVertex_in[of n "smoothPath s"]
    by (simp add: path_smoothPath length_smoothLoop)
next
  fix k :: nat
  assume a: "even (length (path s)) \<and> 3 \<le> getLength s" and k: "1 \<le> k \<and> of_nat (k + 1) < getLength s"
  from k have lt: "2 * (k + 1) < length (path s)" by (simp only: getLength_less)
  from a have ev: "even (length (path s))" by simp
  with lt have lt': "2 * k + 3 < length (path s)" by presburger
  let ?r = "smoothLoop (path s) 2"
  have m0: "?r ! (2 * k) = blend (?r ! (2 * k - 2)) (path s ! (2 * k)) (path s ! (2 * k + 2))"
    using a k lt' by (intro smoothLoop_mid) auto
  have m1: "?r ! (2 * k + 1) = blend (?r ! (2 * k + 1 - 2)) (path s ! (2 * k + 1)) (path s ! (2 * k + 1 + 2))"
    using a k lt' by (intro smoothLoop_mid) auto
  have km: "int k - 1 = int (k - 1)" using k by simp
  have kp: "int k + 1 = int (k + 1)" by simp
  have v0: "getPathVertex (smoothPath s) (int k - 1) = (Some (?r ! (2 * k - 2)), Some (?r ! (2 * k + 1 - 2)))"
  proof -
    from k have e: "2 * (k - 1) = 2 * k - 2" "2 * k - 2 + 1 = 2 * k + 1 - 2" by linarith+
    from lt' k have "2 * (k - 1) + 1 < length (path (smoothPath s))"
      by (simp add: path_smoothPath length_smoothLoop)
    from getPathVertex_in[OF this] show ?thesis
      unfolding km e by (simp only: path_smoothPath)
  qed
  have v1: "getPathVertex s (int k) = (Some (path s ! (2 * k)), Some (path s ! (2 * k + 1)))"
    using lt' by (intro getPathVertex_in) simp
  have v2: "getPathVertex s (int k + 1) = (Some (path s ! (2 * k + 2)), Some (path s ! (2 * k + 1 + 2)))"
    unfolding kp using lt' getPathVertex_in[of "k + 1" s] by simp
  have v3: "getPathVertex (smoothPath s) (int k) = (Some (?r ! (2 * k)), Some (?r ! (2 * k + 1)))"
    using lt' getPathVertex_in[of k "smoothPath s"] by (simp add: path_smoothPath length_smoothLoop)
  show "\<exists>x0 y0 x1 y1 x2 y2.
            getPathVertex (smoothPath s) (int k - 1) = (Some x0, Some y0) \<and>
            getPathVertex s (int k) = (Some x1, Some y1) \<and>
            getPathVertex s (int k + 1) = (Some x2, Some y2) \<and>
            getPathVertex (smoothPath s) (int k) =
              (Some (Num (1/4) * x0 + Num (1/2) * x1 + Num (1/4) * x2),
               Some (Num (1/4) * y0 + Num (1/2) * y1 + Num (1/4) * y2))"
  proof (intro exI conjI)
    show "getPathVertex (smoothPath s) (int k - 1) = (Some (?r ! (2 * k - 2)), Some (?r ! (2 * k + 1 - 2)))"
      by (rule v0)
    show "getPathVertex s (int k) = (Some (path s ! (2 * k)), Some (path s ! (2 * k + 1)))"
      by (rule v1)
    show "getPathVertex s (int k + 1) = (Some (path s ! (2 * k + 2)), Some (path s ! (2 * k + 1 + 2)))"
      by (rule v2)
    show "getPathVertex (smoothPath s) (int k) =
       (Some (Num (1/4) * ?r ! (2 * k - 2) + Num (1/2) * path s ! (2 * k) + Num (1/4) * path s ! (2 * k + 2)),
        Some (Num (1/4) * ?r ! (2 * k + 1 - 2) + Num (1/2) * path s ! (2 * k + 1) + Num (1/4) * path s ! (2 * k + 1 + 2)))"
      using m0 m1 unfolding v3 blend_def by simp
  qed
qed

theorem smoothPath_interior_points_witness:
  "(even (length (path \<lparr>path = [Num 0, Num 0, Num 10, Num 0, Num 10, Num 10, Num 0, Num 10],
       startX = Some (Num 0), startY = Some (Num 0), sid = 0\<rparr>)) \<and>
    3 \<le> getLength \<lparr>path = [Num 0, Num 0, Num 10, Num 0, Num 10, Num 10, Num 0, Num 10],
       startX = Some (Num 0), startY = Some (Num 0), sid = 0\<rparr>) \<and>
   (1 \<le> (1::nat) \<and>
    of_nat (1 + 1) < getLength \<lparr>path = [Num 0, Num 0, Num 10, Num 0, Num 10, Num 10, Num 0, Num 10],
       startX = Some (Num 0), startY = Some (Num 0), sid = 0\<rparr>) \<and>
   length (path (smoothPath \<lparr>path = [Num 0, Num 0, Num 10, Num 0, Num 10, Num 10, Num 0, Num 10],
       startX = Some (Num 0), startY = Some (Num 0), sid = 0\<rparr>)) = length (path \<lparr>path = [Num 0, Num 0, Num 10, Num 0, Num 10, Num 10, Num 0, Num 10],
       startX = Some (Num 0), startY = Some (Num 0), sid = 0\<rparr>) \<and>
   (\<exists>x0 y0 x1 y1 x2 y2.
      getPathVertex (smoothPath \<lparr>path = [Num 0, Num 0, Num 10, Num 0, Num 10, Num 10, Num 0, Num 10],
       startX = Some (Num 0), startY = Some (Num 0), sid = 0\<rparr>) (int 1 - 1) = (Some x0, Some y0) \<and>
      getPathVertex \<lparr>path = [Num 0, Num 0, Num 10, Num 0, Num 10, Num 10, Num 0, Num 10],
       startX = Some (Num 0), startY = Some (Num 0), sid = 0\<rparr> (int 1) = (Some x1, Some y1) \<and>
      getPathVertex \<lparr>path = [Num 0, Num 0, Num 10, Num 0, Num 10, Num 10, Num 0, Num 10],
       startX = Some (Num 0), startY = Some (Num 0), sid = 0\<rparr> (int 1 + 1) = (Some x2, Some y2) \<and>
      getPathVertex (smoothPath \<lparr>path = [Num 0, Num 0, Num 10, Num 0, Num 10, Num 10, Num 0, Num 10],
       startX = Some (Num 0), startY = Some (Num 0), sid = 0\<rparr>) (int 1) =
        (Some (Num (1/4) * x0 + Num (1/2) * x1 + Num (1/4) * x2),
         Some (Num (1/4) * y0 + Num (1/2) * y1 + Num (1/4) * y2)))"
proof -
  let ?s = "\<lparr>path = [Num 0, Num 0, Num 10, Num 0, Num 10, Num 10, Num 0, Num 10],
       startX = Some (Num 0), startY = Some (Num 0), sid = 0\<rparr>"
  have h: "even (length (path ?s)) \<and> 3 \<le> getLength ?s"
    by (simp add: getLength_def)
  have k: "1 \<le> (1::nat) \<and> of_nat (1 + 1) < getLength ?s"
    by (simp add: getLength_def)
  from smoothPath_interior_points[of ?s] h
  have a: "length (path (smoothPath ?s)) = length (path ?s)"
    and b: "\<forall>k. 1 \<le> k \<and> of_nat (k + 1) < getLength ?s \<longrightarrow>
         (\<exists>x0 y0 x1 y1 x2 y2.
            getPathVertex (smoothPath ?s) (int k - 1) = (Some x0, Some y0) \<and>
            getPathVertex ?s (int k) = (Some x1, Some y1) \<and>
            getPathVertex ?s (int k + 1) = (Some x2, Some y2) \<and>
            getPathVertex (smoothPath ?s) (int k) =
              (Some (Num (1/4) * x0 + Num (1/2) * x1 + Num (1/4) * x2),
               Some (Num (1/4) * y0 + Num (1/2) * y1 + Num (1/4) * y2)))"
    by blast+
  from spec[OF b, where x = 1] k have "\<exists>x0 y0 x1 y1 x2 y2.
      getPathVertex (smoothPath ?s) (int 1 - 1) = (Some x0, Some y0) \<and>
      getPathVertex ?s (int 1) = (Some x1, Some y1) \<and>
      getPathVertex ?s (int 1 + 1) = (Some x2, Some y2) \<and>
      getPathVertex (smoothPath ?s) (int 1) =
        (Some (Num (1/4) * x0 + Num (1/2) * x1 + Num (1/4) * x2),
         Some (Num (1/4) * y0 + Num (1/2) * y1 + Num (1/4) * y2))"
    by (rule mp)
  with h k a show ?thesis by blast
qed

section \<open>The vertex accessor\<close>

text \<open>
  Claim C8, as amended. \<open>getPathVertex\<close> raises no error at any index. On a stroke whose
  array holds both coordinates of each point, it returns the point at index \<open>i\<close> when
  \<open>0 \<le> i < getLength()\<close>, and the pair of two \<open>undefined\<close> at every other index.
\<close>

theorem getPathVertex_no_error:
  "even (length (path s)) \<Longrightarrow>
   getPathVertex s i =
     (if 0 \<le> i \<and> of_int i < getLength s
      then (Some (path s ! nat (i * 2)), Some (path s ! nat (i * 2 + 1)))
      else (None, None))"
proof -
  assume ev: "even (length (path s))"
  have "(of_int i < getLength s) = (2 * i < int (length (path s)))"
  proof -
    have "(of_int i < getLength s) = ((of_int (2 * i) :: rat) < of_int (int (length (path s))))"
      by (simp add: getLength_def field_simps)
    also have "\<dots> = (2 * i < int (length (path s)))" by (simp only: of_int_less_iff)
    finally show ?thesis .
  qed
  moreover from ev have "2 * i < int (length (path s)) \<longleftrightarrow> 2 * i + 1 < int (length (path s))"
    by presburger
  ultimately show ?thesis
    by (auto simp: getPathVertex_def rd_def)
qed

theorem getPathVertex_no_error_witness:
  "even (length (path \<lparr>path = [Num 3, Num 4], startX = Some (Num 3), startY = Some (Num 4), sid = 0\<rparr>)) \<and>
   getPathVertex \<lparr>path = [Num 3, Num 4], startX = Some (Num 3), startY = Some (Num 4), sid = 0\<rparr> 0 =
     (Some (Num 3), Some (Num 4)) \<and>
   getPathVertex \<lparr>path = [Num 3, Num 4], startX = Some (Num 3), startY = Some (Num 4), sid = 0\<rparr> 5 =
     (None, None)"
  using getPathVertex_no_error[of "\<lparr>path = [Num 3, Num 4], startX = Some (Num 3), startY = Some (Num 4), sid = 0\<rparr>" 0]
    getPathVertex_no_error[of "\<lparr>path = [Num 3, Num 4], startX = Some (Num 3), startY = Some (Num 4), sid = 0\<rparr>" 5]
  by (simp add: getLength_def)

text \<open>
  The claim as written fails: on a stroke of one point, index 1 and index -1 are out of
  range, and the accessor returns a value there.
\<close>

theorem getPathVertex_out_of_range_counterexample:
  "\<not> (1 < getLength \<lparr>path = [Num 3, Num 4], startX = Some (Num 3), startY = Some (Num 4), sid = 0\<rparr>) \<and>
   getPathVertex \<lparr>path = [Num 3, Num 4], startX = Some (Num 3), startY = Some (Num 4), sid = 0\<rparr> 1 =
     (None, None) \<and>
   getPathVertex \<lparr>path = [Num 3, Num 4], startX = Some (Num 3), startY = Some (Num 4), sid = 0\<rparr> (- 1) =
     (None, None)"
  by (simp add: getLength_def getPathVertex_def rd_def)

section \<open>Tiles\<close>

text \<open>
  Claim C7. A tile built at \<open>(x0, y0)\<close> has size 2000 and encloses exactly the points of
  \<open>[x0, x0 + 2000) \<times> [y0, y0 + 2000)\<close>, half-open on both axes: a point with
  \<open>x = x0 + 2000\<close> or \<open>y = y0 + 2000\<close> is outside, and a point \<open>(x0 + 2000 - eps, y0)\<close>
  short of the right edge by any \<open>eps > 0\<close>, up to the width of the tile, is inside.
\<close>

theorem enclosesVertex_half_open:
  "Tile_size = Num 2000 \<and>
   (enclosesVertex (new_Tile (Num x0) (Num y0)) (Num x) (Num y) \<longleftrightarrow>
      x0 \<le> x \<and> x < x0 + 2000 \<and> y0 \<le> y \<and> y < y0 + 2000) \<and>
   \<not> enclosesVertex (new_Tile (Num x0) (Num y0)) (Num (x0 + 2000)) (Num y) \<and>
   \<not> enclosesVertex (new_Tile (Num x0) (Num y0)) (Num x) (Num (y0 + 2000)) \<and>
   (0 < eps \<and> eps \<le> 2000 \<longrightarrow>
      enclosesVertex (new_Tile (Num x0) (Num y0)) (Num (x0 + 2000 - eps)) (Num y0))"
  by (auto simp: enclosesVertex_def new_Tile_def Tile_size_def)

theorem enclosesVertex_half_open_witness:
  "(0::rat) < 1/2 \<and> (1/2::rat) \<le> 2000 \<and>
   enclosesVertex (new_Tile (Num 0) (Num 0)) (Num (0 + 2000 - 1/2)) (Num 0)"
  using enclosesVertex_half_open[of 0 0 0 0 "1/2"] by simp

text \<open>
  Claim C9, as amended. \<open>addStroke\<close> appends without looking at the ids: a stroke added
  twice is stored twice, in both arrays, and the tile counts two more elements; a later
  \<open>removeStroke\<close> of its id removes both copies.
\<close>

theorem addStroke_twice_stores_twice:
  "getStrokes (addStroke (addStroke t s) s) = getStrokes t @ [s, s] \<and>
   strokeIDs (addStroke (addStroke t s) s) = strokeIDs t @ [getID s, getID s] \<and>
   numElements (addStroke (addStroke t s) s) = numElements t + 2 \<and>
   getStrokes (removeStroke (addStroke (addStroke t s) s) (getID s)) =
     filter (\<lambda>x. getID x \<noteq> getID s) (getStrokes t)"
  by (simp add: addStroke_def getStrokes_def numElements_def removeStroke_def)

text \<open>The claim as written fails: the stroke added twice is iterated twice.\<close>

theorem addStroke_duplicate_counterexample:
  "count_list
     (getStrokes (addStroke (addStroke (new_Tile (Num 0) (Num 0))
        \<lparr>path = [Num 3, Num 4], startX = Some (Num 3), startY = Some (Num 4), sid = 0\<rparr>)
        \<lparr>path = [Num 3, Num 4], startX = Some (Num 3), startY = Some (Num 4), sid = 0\<rparr>))
     \<lparr>path = [Num 3, Num 4], startX = Some (Num 3), startY = Some (Num 4), sid = 0\<rparr> = 2"
  by (simp add: addStroke_def getStrokes_def new_Tile_def)

lemma tile_reach_ids: "tile_reach t \<Longrightarrow> strokeIDs t = map getID (strokes t)"
proof (induction rule: tile_reach.induct)
  case (tile_new x y)
  show ?case by (simp add: new_Tile_def)
next
  case (tile_add t s)
  then show ?case by (simp add: addStroke_def)
next
  case (tile_remove t strokeID)
  then show ?case by (simp add: removeStroke_def filter_map comp_def)
qed

lemma removeStroke_strokes:
  "strokeIDs t = map getID (strokes t) \<Longrightarrow>
   strokes (removeStroke t i) = filter (\<lambda>s. getID s \<noteq> i) (strokes t)"
proof (cases "i \<in> set (strokeIDs t)")
  case True
  then show ?thesis by (simp add: removeStroke_def)
next
  case False
  assume "strokeIDs t = map getID (strokes t)"
  with False have "\<forall>s \<in> set (strokes t). getID s \<noteq> i" by auto
  then have "filter (\<lambda>s. getID s \<noteq> i) (strokes t) = strokes t" by simp
  with False show ?thesis by (simp add: removeStroke_def)
qed

text \<open>
  Claim C10. In every tile that calls of \<open>addStroke\<close> and \<open>removeStroke\<close> lead to from
  a new tile, \<open>strokeIDs\<close> is the list of the ids of \<open>strokes\<close>, in the same order; so
  \<open>isEmpty()\<close> holds exactly when \<open>numElements()\<close> is 0, and \<open>removeStroke(id)\<close>
  removes the stored strokes of that id and no other, from both arrays.
\<close>

theorem tile_reach_arrays_agree:
  assumes "tile_reach t"
  shows "strokeIDs t = map getID (strokes t) \<and>
         (isEmpty t \<longleftrightarrow> numElements t = 0) \<and>
         getStrokes (removeStroke t strokeID) = filter (\<lambda>s. getID s \<noteq> strokeID) (getStrokes t) \<and>
         strokeIDs (removeStroke t strokeID) = map getID (getStrokes (removeStroke t strokeID))"
proof -
  from assms have ids: "strokeIDs t = map getID (strokes t)" by (rule tile_reach_ids)
  from assms have "tile_reach (removeStroke t strokeID)" by (rule tile_remove)
  then have ids': "strokeIDs (removeStroke t strokeID) = map getID (strokes (removeStroke t strokeID))"
    by (rule tile_reach_ids)
  from ids have "isEmpty t \<longleftrightarrow> numElements t = 0" by (simp add: isEmpty_def numElements_def)
  with ids ids' removeStroke_strokes[OF ids] show ?thesis by (simp add: getStrokes_def)
qed

theorem tile_reach_arrays_agree_witness:
  "tile_reach (removeStroke (addStroke (new_Tile (Num 0) (Num 0))
       \<lparr>path = [Num 3, Num 4], startX = Some (Num 3), startY = Some (Num 4), sid = 7\<rparr>) 7) \<and>
   strokeIDs (removeStroke (addStroke (new_Tile (Num 0) (Num 0))
       \<lparr>path = [Num 3, Num 4], startX = Some (Num 3), startY = Some (Num 4), sid = 7\<rparr>) 7) =
   map getID (strokes (removeStroke (addStroke (new_Tile (Num 0) (Num 0))
       \<lparr>path = [Num 3, Num 4], startX = Some (Num 3), startY = Some (Num 4), sid = 7\<rparr>) 7))"
proof -
  have r: "tile_reach (removeStroke (addStroke (new_Tile (Num 0) (Num 0))
       \<lparr>path = [Num 3, Num 4], startX = Some (Num 3), startY = Some (Num 4), sid = 7\<rparr>) 7)"
    by (intro tile_remove tile_add tile_new)
  from tile_reach_arrays_agree[OF r] r show ?thesis by blast
qed

section \<open>Erasing\<close>

subsection \<open>The tile lookup and the scan\<close>

lemma getTile_Some:
  "getTile ts x y = Some k \<Longrightarrow> k < length ts \<and> enclosesVertex (ts ! k) x y"
proof (induction ts arbitrary: k)
  case Nil
  then show ?case by simp
next
  case (Cons t ts)
  show ?case
  proof (cases "enclosesVertex t x y")
    case True
    with Cons.prems show ?thesis by simp
  next
    case False
    with Cons.prems obtain k' where k': "getTile ts x y = Some k'" "k = Suc k'" by auto
    from Cons.IH[OF k'(1)] k'(2) show ?thesis by simp
  qed
qed

lemma getTile_None:
  "getTile ts x y = None \<Longrightarrow> \<forall>t \<in> set ts. \<not> enclosesVertex t x y"
  by (induction ts) (auto split: if_splits)

lemma eraseLoop_Some:
  "eraseLoop ss x y sz n = Some i \<Longrightarrow>
   i < n \<and> strokeHit (ss ! i) x y sz \<and> (\<forall>j. i < j \<and> j < n \<longrightarrow> \<not> strokeHit (ss ! j) x y sz)"
proof (induction n)
  case 0
  then show ?case by simp
next
  case (Suc n)
  show ?case
  proof (cases "strokeHit (ss ! n) x y sz")
    case True
    with Suc.prems show ?thesis by auto
  next
    case False
    with Suc.prems have "eraseLoop ss x y sz n = Some i" by simp
    from Suc.IH[OF this] False show ?thesis
      by (auto simp: less_Suc_eq)
  qed
qed

lemma eraseLoop_None:
  "(eraseLoop ss x y sz n = None) = (\<forall>j < n. \<not> strokeHit (ss ! j) x y sz)"
  by (induction n) (auto simp: less_Suc_eq)

lemma withinSquare_Num:
  "withinSquare (Num px) (Num py) (Num lx) (Num ly) (Num t) = (\<bar>px - lx\<bar> \<le> t \<and> \<bar>py - ly\<bar> \<le> t)"
  by (simp add: withinSquare_def)

subsection \<open>The branches of \<open>erase\<close>\<close>

lemma erase_not_erasing: "\<not> isErasing st \<Longrightarrow> erase st x y = Inr (st, None)"
  by (simp add: erase_def)

lemma erase_suppress:
  "withinSquare x y (lastX st) (lastY st) (Num 5) \<Longrightarrow> erase st x y = Inr (st, None)"
  by (simp add: erase_def)

lemma erase_no_tile:
  "isErasing st \<Longrightarrow> \<not> withinSquare x y (lastX st) (lastY st) (Num 5) \<Longrightarrow>
   getTile (onScreenTiles st) x y = None \<Longrightarrow> erase st x y = Inl (TypeError, st)"
  by (simp add: erase_def)

lemma erase_empty_tile:
  "isErasing st \<Longrightarrow> \<not> withinSquare x y (lastX st) (lastY st) (Num 5) \<Longrightarrow>
   getTile (onScreenTiles st) x y = Some k \<Longrightarrow> isEmpty (onScreenTiles st ! k) \<Longrightarrow>
   erase st x y = Inr (st, None)"
  by (simp add: erase_def)

lemma erase_miss:
  "isErasing st \<Longrightarrow> \<not> withinSquare x y (lastX st) (lastY st) (Num 5) \<Longrightarrow>
   getTile (onScreenTiles st) x y = Some k \<Longrightarrow> \<not> isEmpty (onScreenTiles st ! k) \<Longrightarrow>
   eraseLoop (strokes (onScreenTiles st ! k)) x y (Num 5) (length (strokes (onScreenTiles st ! k))) = None \<Longrightarrow>
   erase st x y = Inr (st\<lparr>lastX := x, lastY := y\<rparr>, None)"
  by (simp add: erase_def Let_def getStrokes_def numElements_def)

lemma erase_hit:
  "isErasing st \<Longrightarrow> \<not> withinSquare x y (lastX st) (lastY st) (Num 5) \<Longrightarrow>
   getTile (onScreenTiles st) x y = Some k \<Longrightarrow> \<not> isEmpty (onScreenTiles st ! k) \<Longrightarrow>
   eraseLoop (strokes (onScreenTiles st ! k)) x y (Num 5) (length (strokes (onScreenTiles st ! k))) = Some i \<Longrightarrow>
   erase st x y =
     Inr (st\<lparr>lastX := x, lastY := y,
             onScreenTiles := (onScreenTiles st)
               [k := removeStroke (onScreenTiles st ! k) (getID (strokes (onScreenTiles st ! k) ! i))]\<rparr>,
          Some (take i (strokes (onScreenTiles st ! k)) @ drop (Suc i) (strokes (onScreenTiles st ! k))))"
  by (simp add: erase_def Let_def getStrokes_def numElements_def)

subsection \<open>Removal by id\<close>

lemma removeStroke_member:
  assumes "i \<in> set (strokeIDs t)"
  shows "strokes (removeStroke t i) = filter (\<lambda>s. getID s \<noteq> i) (strokes t)"
    and "strokeIDs (removeStroke t i) = filter (\<lambda>s. s \<noteq> i) (strokeIDs t)"
  using assms by (simp_all add: removeStroke_def)

lemma filter_distinct_nth:
  "distinct (map f xs) \<Longrightarrow> i < length xs \<Longrightarrow>
   filter (\<lambda>s. f s \<noteq> f (xs ! i)) xs = take i xs @ drop (Suc i) xs"
proof (induction xs arbitrary: i)
  case Nil
  then show ?case by simp
next
  case (Cons a xs)
  show ?case
  proof (cases i)
    case 0
    from Cons.prems have "f a \<notin> f ` set xs" by simp
    then have "\<forall>s \<in> set xs. f s \<noteq> f a" by (metis image_eqI)
    then have "filter (\<lambda>s. f s \<noteq> f a) xs = xs" by simp
    with 0 show ?thesis by simp
  next
    case (Suc i')
    from Cons.prems Suc have "f a \<notin> f ` set xs" "xs ! i' \<in> set xs" by simp_all
    then have "f a \<noteq> f (xs ! i')" by (metis image_eqI)
    moreover from Cons.prems Suc
    have "filter (\<lambda>s. f s \<noteq> f (xs ! i')) xs = take i' xs @ drop (Suc i') xs"
      by (intro Cons.IH) auto
    ultimately show ?thesis using Suc by simp
  qed
qed

lemma removeStroke_nth:
  assumes "strokeIDs t = map getID (strokes t)" and "distinct (strokeIDs t)"
    and "i < length (strokes t)"
  shows "strokes (removeStroke t (getID (strokes t ! i))) = take i (strokes t) @ drop (Suc i) (strokes t)"
proof -
  from assms have "distinct (map getID (strokes t))" by simp
  from filter_distinct_nth[OF this assms(3)] removeStroke_strokes[OF assms(1)]
  show ?thesis by simp
qed

lemma removeStroke_bounds:
  "tileStartX (removeStroke t i) = tileStartX t \<and> tileStartY (removeStroke t i) = tileStartY t \<and>
   endX (removeStroke t i) = endX t \<and> endY (removeStroke t i) = endY t"
  by (simp add: removeStroke_def)

lemma enclosesVertex_removeStroke:
  "enclosesVertex (removeStroke t i) x y = enclosesVertex t x y"
  by (simp add: enclosesVertex_def removeStroke_bounds)

lemma getTile_update:
  "k < length ts \<Longrightarrow> enclosesVertex t' x y = enclosesVertex (ts ! k) x y \<Longrightarrow>
   getTile (ts[k := t']) x y = getTile ts x y"
proof (induction ts arbitrary: k)
  case Nil
  then show ?case by simp
next
  case (Cons t ts)
  then show ?case by (cases k) simp_all
qed

subsection \<open>What every reachable state satisfies\<close>

lemma tile_ok_mono: "tile_ok m t \<Longrightarrow> m \<le> m' \<Longrightarrow> tile_ok m' t"
  unfolding tile_ok_def by (blast intro: less_le_trans)

lemma tile_ok_removeStroke:
  assumes "tile_ok m t"
  shows "tile_ok m (removeStroke t i)"
proof (cases "i \<in> set (strokeIDs t)")
  case False
  with assms show ?thesis by (simp add: removeStroke_def)
next
  case True
  from assms have ids: "strokeIDs t = map getID (strokes t)" and d: "distinct (strokeIDs t)"
    and b: "\<forall>j \<in> set (strokeIDs t). j < m"
    unfolding tile_ok_def by blast+
  have "strokeIDs (removeStroke t i) = map getID (strokes (removeStroke t i))"
    using True ids by (simp add: removeStroke_def filter_map comp_def)
  moreover have "distinct (strokeIDs (removeStroke t i))"
    using True d by (simp add: removeStroke_def)
  moreover have "\<forall>j \<in> set (strokeIDs (removeStroke t i)). j < m"
    using True b by (simp add: removeStroke_def)
  ultimately show ?thesis by (simp add: tile_ok_def)
qed

lemma strokeIDs_removeStroke_subset: "set (strokeIDs (removeStroke t i)) \<subseteq> set (strokeIDs t)"
  by (auto simp: removeStroke_def)

lemma tile_ok_addStroke:
  "tile_ok m t \<Longrightarrow> getID s \<notin> set (strokeIDs t) \<Longrightarrow> getID s < m \<Longrightarrow> tile_ok m (addStroke t s)"
  unfolding tile_ok_def addStroke_def by auto

lemma getID_addToPath: "getID (addToPath s x y) = getID s"
  by (simp add: addToPath_def getID_def setStart_def Let_def)

lemma getID_smoothPath: "getID (smoothPath s) = getID s"
  by (simp add: smoothPath_def getID_def)

lemma canvas_ok_initial: "canvas_ok initial"
  by (simp add: canvas_ok_def initial_def new_Stroke_def new_Tile_def tile_ok_def getID_def)

lemma canvas_ok_flags:
  "canvas_ok (st\<lparr>isErasing := b\<rparr>) = canvas_ok st"
  "canvas_ok (st\<lparr>isDrawing := b\<rparr>) = canvas_ok st"
  "canvas_ok (st\<lparr>lastX := x, lastY := y\<rparr>) = canvas_ok st"
  by (simp_all add: canvas_ok_def)

lemma canvas_ok_currStroke:
  "getID s = getID (currStroke st) \<Longrightarrow> canvas_ok (st\<lparr>currStroke := s\<rparr>) = canvas_ok st"
  by (simp add: canvas_ok_def)

lemma canvas_ok_remove:
  assumes "canvas_ok st" and "k < length (onScreenTiles st)"
  shows "canvas_ok (st\<lparr>onScreenTiles := (onScreenTiles st)[k := removeStroke (onScreenTiles st ! k) i]\<rparr>)"
proof -
  let ?t = "removeStroke (onScreenTiles st ! k) i"
  from assms have tk: "onScreenTiles st ! k \<in> set (onScreenTiles st)" by simp
  with assms(1) have a: "tile_ok (masterId st) ?t"
    by (auto simp: canvas_ok_def intro: tile_ok_removeStroke)
  from tk assms(1) strokeIDs_removeStroke_subset[of "onScreenTiles st ! k" i]
  have b: "getID (currStroke st) \<notin> set (strokeIDs ?t)"
    by (auto simp: canvas_ok_def)
  have "set ((onScreenTiles st)[k := ?t]) \<subseteq> insert ?t (set (onScreenTiles st))"
    by (rule set_update_subset_insert)
  with a b assms(1) show ?thesis
    by (auto simp: canvas_ok_def)
qed

lemma canvas_ok_erase:
  assumes "canvas_ok st"
  shows "canvas_ok (stateAfter (map_sum id fst (erase st x y)))"
proof (cases "isErasing st \<and> \<not> withinSquare x y (lastX st) (lastY st) (Num 5)")
  case False
  then have "erase st x y = Inr (st, None)" by (auto simp: erase_not_erasing erase_suppress)
  with assms show ?thesis by simp
next
  case c: True
  show ?thesis
  proof (cases "getTile (onScreenTiles st) x y")
    case None
    with c assms show ?thesis by (simp add: erase_no_tile)
  next
    case (Some k)
    then have k: "k < length (onScreenTiles st)" by (simp add: getTile_Some)
    show ?thesis
    proof (cases "isEmpty (onScreenTiles st ! k)")
      case True
      with c Some assms show ?thesis by (simp add: erase_empty_tile)
    next
      case ne: False
      show ?thesis
      proof (cases "eraseLoop (strokes (onScreenTiles st ! k)) x y (Num 5) (length (strokes (onScreenTiles st ! k)))")
        case None
        with c Some ne assms show ?thesis by (simp add: erase_miss canvas_ok_flags)
      next
        case (Some i)
        let ?st1 = "st\<lparr>lastX := x, lastY := y\<rparr>"
        from assms have "canvas_ok ?st1" by (simp add: canvas_ok_flags)
        from canvas_ok_remove[OF this, of k] k
        have "canvas_ok (?st1\<lparr>onScreenTiles := (onScreenTiles st)[k := removeStroke (onScreenTiles st ! k) (getID (strokes (onScreenTiles st ! k) ! i))]\<rparr>)"
          by simp
        with erase_hit[OF _ _ \<open>getTile (onScreenTiles st) x y = Some k\<close> ne Some] c
        show ?thesis by simp
      qed
    qed
  qed
qed

lemma canvas_ok_endDraw:
  assumes "canvas_ok st"
  shows "canvas_ok (stateAfter (endDraw st))"
proof (cases "isEmptyStroke (currStroke st)")
  case True
  with assms show ?thesis by (simp add: endDraw_def canvas_ok_flags)
next
  case ne: False
  let ?c = "smoothPath (currStroke st)"
  let ?st2 = "st\<lparr>isDrawing := False, currStroke := ?c\<rparr>"
  have ok2: "canvas_ok ?st2"
    using assms by (simp add: canvas_ok_def getID_smoothPath)
  show ?thesis
  proof (cases "onScreenTiles st")
    case Nil
    with ne ok2 show ?thesis by (simp add: endDraw_def Let_def rd_def)
  next
    case (Cons tile0 rest)
    let ?t = "addStroke tile0 ?c"
    let ?m = "masterId st"
    from assms Cons have t0: "tile_ok ?m tile0" "getID (currStroke st) \<notin> set (strokeIDs tile0)"
      and cur: "getID (currStroke st) < ?m"
      and rest: "\<forall>t \<in> set rest. tile_ok ?m t"
      by (auto simp: canvas_ok_def)
    have a0: "tile_ok ?m ?t"
      using t0 cur by (intro tile_ok_addStroke) (simp_all add: getID_smoothPath)
    then have a: "tile_ok (?m + 1) ?t" by (rule tile_ok_mono) simp
    from rest have b: "\<forall>t \<in> set rest. tile_ok (?m + 1) t"
      by (auto intro: tile_ok_mono)
    have c: "\<forall>t \<in> set (?t # rest). ?m \<notin> set (strokeIDs t)"
    proof
      fix t assume "t \<in> set (?t # rest)"
      with a0 rest have "tile_ok ?m t" by auto
      then have "\<forall>j \<in> set (strokeIDs t). j < ?m" by (simp add: tile_ok_def)
      then show "?m \<notin> set (strokeIDs t)" by blast
    qed
    have e: "endDraw st = Inr (?st2\<lparr>onScreenTiles := ?t # rest,
                 currStroke := \<lparr>path = [], startX = None, startY = None, sid = ?m\<rparr>, masterId := ?m + 1\<rparr>)"
      using ne Cons by (simp add: endDraw_def Let_def rd_def new_Stroke_def)
    show ?thesis
      unfolding e using a b c by (simp add: canvas_ok_def getID_def)
  qed
qed

lemma canvas_ok_step:
  assumes "canvas_ok st"
  shows "canvas_ok (stateAfter (handleEvent st ev))"
proof -
  have down: "canvas_ok (stateAfter (pointerDown st b x y))" for b x y
  proof -
    have "canvas_ok (st\<lparr>isErasing := True\<rparr>)" using assms by (simp add: canvas_ok_flags)
    from canvas_ok_erase[OF this] assms show ?thesis
      by (simp add: pointerDown_def startErase_def startDraw_def canvas_ok_def getID_addToPath)
  qed
  have up: "canvas_ok (stateAfter (pointerUp st b))" for b
    using canvas_ok_endDraw[OF assms] assms
    by (cases "endDraw st") (auto simp: pointerUp_def endErase_def canvas_ok_flags)
  have move: "canvas_ok (stateAfter (pointerMove st x y))" for x y
  proof -
    have "canvas_ok (draw st x y)"
      using assms by (simp add: draw_def canvas_ok_def getID_addToPath)
    from canvas_ok_erase[OF this] show ?thesis by (simp add: pointerMove_def)
  qed
  show ?thesis by (cases ev) (simp_all add: down up move)
qed

lemma reachable_ok: "reachable st \<Longrightarrow> canvas_ok st"
  by (induction rule: reachable.induct) (simp_all add: canvas_ok_initial canvas_ok_step)

lemma reachable_run: "reachable st \<Longrightarrow> reachable (run st evs)"
proof (induction evs arbitrary: st)
  case Nil
  then show ?case by (simp add: run_def)
next
  case (Cons ev evs)
  from Cons.prems have "reachable (stateAfter (handleEvent st ev))" by (rule reachable_event)
  from Cons.IH[OF this] show ?case by (simp add: run_def)
qed

subsection \<open>The claims on erasing\<close>

text \<open>
  Claim C4. An erase event within the threshold of the last processed position on both
  axes (\<open>|dx| \<le> 5\<close> and \<open>|dy| \<le> 5\<close>, not the Euclidean distance) does nothing: whatever
  the tiles hold, even no tile at all, the state is returned as it was, \<open>lastX\<close> and
  \<open>lastY\<close> included, no stroke is removed and nothing is redrawn; so after \<open>(100,100)\<close>
  the event at \<open>(102,103)\<close> is suppressed. \<open>(110,100)\<close> is outside the square of
  \<open>(100,100)\<close>; an event outside the square, on a tile that holds strokes, goes on to the
  scan: the position is recorded and a redraw is issued exactly when a stroke of the tile
  is hit.
\<close>

theorem erase_suppressed_no_work:
  "(withinSquare x y (lastX st) (lastY st) (Num 5) \<longrightarrow> erase st x y = Inr (st, None)) \<and>
   (withinSquare (Num px) (Num py) (Num lx) (Num ly) (Num t) \<longleftrightarrow> \<bar>px - lx\<bar> \<le> t \<and> \<bar>py - ly\<bar> \<le> t) \<and>
   (lastX st = Num 100 \<and> lastY st = Num 100 \<longrightarrow> erase st (Num 102) (Num 103) = Inr (st, None)) \<and>
   \<not> withinSquare (Num 110) (Num 100) (Num 100) (Num 100) (Num 5) \<and>
   (isErasing st \<and> \<not> withinSquare x y (lastX st) (lastY st) (Num 5) \<and>
    getTile (onScreenTiles st) x y = Some k \<and> \<not> isEmpty (onScreenTiles st ! k) \<longrightarrow>
      (\<exists>st' r. erase st x y = Inr (st', r) \<and> lastX st' = x \<and> lastY st' = y \<and>
         (r \<noteq> None \<longleftrightarrow>
            (\<exists>i < numElements (onScreenTiles st ! k).
               strokeHit (getStrokes (onScreenTiles st ! k) ! i) x y (Num 5)))))"
proof (intro conjI impI)
  assume "withinSquare x y (lastX st) (lastY st) (Num 5)"
  then show "erase st x y = Inr (st, None)" by (rule erase_suppress)
next
  show "withinSquare (Num px) (Num py) (Num lx) (Num ly) (Num t) \<longleftrightarrow> \<bar>px - lx\<bar> \<le> t \<and> \<bar>py - ly\<bar> \<le> t"
    by (rule withinSquare_Num)
next
  assume "lastX st = Num 100 \<and> lastY st = Num 100"
  then have "withinSquare (Num 102) (Num 103) (lastX st) (lastY st) (Num 5)"
    by (simp add: withinSquare_Num)
  then show "erase st (Num 102) (Num 103) = Inr (st, None)" by (rule erase_suppress)
next
  show "\<not> withinSquare (Num 110) (Num 100) (Num 100) (Num 100) (Num 5)"
    by (simp add: withinSquare_Num)
next
  assume a: "isErasing st \<and> \<not> withinSquare x y (lastX st) (lastY st) (Num 5) \<and>
    getTile (onScreenTiles st) x y = Some k \<and> \<not> isEmpty (onScreenTiles st ! k)"
  let ?ss = "strokes (onScreenTiles st ! k)"
  show "\<exists>st' r. erase st x y = Inr (st', r) \<and> lastX st' = x \<and> lastY st' = y \<and>
         (r \<noteq> None \<longleftrightarrow>
            (\<exists>i < numElements (onScreenTiles st ! k).
               strokeHit (getStrokes (onScreenTiles st ! k) ! i) x y (Num 5)))"
  proof (cases "eraseLoop ?ss x y (Num 5) (length ?ss)")
    case None
    then have "\<forall>j < length ?ss. \<not> strokeHit (?ss ! j) x y (Num 5)" by (simp add: eraseLoop_None)
    with erase_miss[OF _ _ _ _ None] a show ?thesis
      by (simp add: numElements_def getStrokes_def)
  next
    case (Some i)
    from eraseLoop_Some[OF Some] have "\<exists>i < length ?ss. strokeHit (?ss ! i) x y (Num 5)" by blast
    with erase_hit[OF _ _ _ _ Some] a show ?thesis
      by (simp add: numElements_def getStrokes_def)
  qed
qed

theorem erase_suppressed_no_work_witness:
  "withinSquare (Num 102) (Num 103) (lastX (run initial [PointerDown 0 (Num 106) (Num 103), PointerMove (Num 110) (Num 100), PointerUp 0,
      PointerDown 2 (Num 100) (Num 100)])) (lastY (run initial [PointerDown 0 (Num 106) (Num 103), PointerMove (Num 110) (Num 100), PointerUp 0,
      PointerDown 2 (Num 100) (Num 100)])) (Num 5) \<and>
   list_ex (\<lambda>s. strokeHit s (Num 102) (Num 103) (Num 5)) (getStrokes (onScreenTiles (run initial [PointerDown 0 (Num 106) (Num 103), PointerMove (Num 110) (Num 100), PointerUp 0,
      PointerDown 2 (Num 100) (Num 100)]) ! 0)) \<and>
   erase (run initial [PointerDown 0 (Num 106) (Num 103), PointerMove (Num 110) (Num 100), PointerUp 0,
      PointerDown 2 (Num 100) (Num 100)]) (Num 102) (Num 103) = Inr ((run initial [PointerDown 0 (Num 106) (Num 103), PointerMove (Num 110) (Num 100), PointerUp 0,
      PointerDown 2 (Num 100) (Num 100)]), None) \<and>
   (isErasing (run initial [PointerDown 0 (Num 106) (Num 103), PointerMove (Num 110) (Num 100), PointerUp 0,
      PointerDown 2 (Num 100) (Num 100)]) \<and> \<not> withinSquare (Num 110) (Num 100) (lastX (run initial [PointerDown 0 (Num 106) (Num 103), PointerMove (Num 110) (Num 100), PointerUp 0,
      PointerDown 2 (Num 100) (Num 100)])) (lastY (run initial [PointerDown 0 (Num 106) (Num 103), PointerMove (Num 110) (Num 100), PointerUp 0,
      PointerDown 2 (Num 100) (Num 100)])) (Num 5) \<and>
    getTile (onScreenTiles (run initial [PointerDown 0 (Num 106) (Num 103), PointerMove (Num 110) (Num 100), PointerUp 0,
      PointerDown 2 (Num 100) (Num 100)])) (Num 110) (Num 100) = Some 0 \<and> \<not> isEmpty (onScreenTiles (run initial [PointerDown 0 (Num 106) (Num 103), PointerMove (Num 110) (Num 100), PointerUp 0,
      PointerDown 2 (Num 100) (Num 100)]) ! 0)) \<and>
   (\<exists>st' r. erase (run initial [PointerDown 0 (Num 106) (Num 103), PointerMove (Num 110) (Num 100), PointerUp 0,
      PointerDown 2 (Num 100) (Num 100)]) (Num 110) (Num 100) = Inr (st', r) \<and> lastX st' = Num 110 \<and> lastY st' = Num 100 \<and>
      (r \<noteq> None \<longleftrightarrow>
         (\<exists>i < numElements (onScreenTiles (run initial [PointerDown 0 (Num 106) (Num 103), PointerMove (Num 110) (Num 100), PointerUp 0,
      PointerDown 2 (Num 100) (Num 100)]) ! 0).
            strokeHit (getStrokes (onScreenTiles (run initial [PointerDown 0 (Num 106) (Num 103), PointerMove (Num 110) (Num 100), PointerUp 0,
      PointerDown 2 (Num 100) (Num 100)]) ! 0) ! i) (Num 110) (Num 100) (Num 5))))"
proof -
  let ?E = "(run initial [PointerDown 0 (Num 106) (Num 103), PointerMove (Num 110) (Num 100), PointerUp 0,
      PointerDown 2 (Num 100) (Num 100)])"
  have a: "withinSquare (Num 102) (Num 103) (lastX ?E) (lastY ?E) (Num 5)" by code_simp
  have b: "list_ex (\<lambda>s. strokeHit s (Num 102) (Num 103) (Num 5)) (getStrokes (onScreenTiles ?E ! 0))"
    by code_simp
  have c: "isErasing ?E \<and> \<not> withinSquare (Num 110) (Num 100) (lastX ?E) (lastY ?E) (Num 5) \<and>
    getTile (onScreenTiles ?E) (Num 110) (Num 100) = Some 0 \<and> \<not> isEmpty (onScreenTiles ?E ! 0)"
    by code_simp
  from erase_suppressed_no_work[where st = ?E and x = "Num 102" and y = "Num 103"] a
  have d: "erase ?E (Num 102) (Num 103) = Inr (?E, None)" by blast
  from erase_suppressed_no_work[where st = ?E and x = "Num 110" and y = "Num 100" and k = 0] c
  have e: "\<exists>st' r. erase ?E (Num 110) (Num 100) = Inr (st', r) \<and> lastX st' = Num 110 \<and> lastY st' = Num 100 \<and>
      (r \<noteq> None \<longleftrightarrow>
         (\<exists>i < numElements (onScreenTiles ?E ! 0).
            strokeHit (getStrokes (onScreenTiles ?E ! 0) ! i) (Num 110) (Num 100) (Num 5)))"
    by blast
  from a b c d e show ?thesis by blast
qed

text \<open>
  Claim C5, as amended. An erase event that is not suppressed and whose tile holds at
  least one stroke sets \<open>lastX\<close> and \<open>lastY\<close> to the pointer position, whether or not a
  stroke is hit. When the tile under the pointer is empty, \<open>erase\<close> returns before the
  assignment and the state stays as it was.
\<close>

theorem erase_sets_last_position:
  assumes "isErasing st" and "\<not> withinSquare x y (lastX st) (lastY st) (Num 5)"
    and "getTile (onScreenTiles st) x y = Some k"
  shows "(\<not> isEmpty (onScreenTiles st ! k) \<longrightarrow>
           (\<exists>st' r. erase st x y = Inr (st', r) \<and> lastX st' = x \<and> lastY st' = y)) \<and>
         (isEmpty (onScreenTiles st ! k) \<longrightarrow> erase st x y = Inr (st, None))"
proof (intro conjI impI)
  assume ne: "\<not> isEmpty (onScreenTiles st ! k)"
  show "\<exists>st' r. erase st x y = Inr (st', r) \<and> lastX st' = x \<and> lastY st' = y"
  proof (cases "eraseLoop (strokes (onScreenTiles st ! k)) x y (Num 5) (length (strokes (onScreenTiles st ! k)))")
    case None
    from erase_miss[OF assms ne None] show ?thesis by simp
  next
    case (Some i)
    from erase_hit[OF assms ne Some] show ?thesis by simp
  qed
next
  assume "isEmpty (onScreenTiles st ! k)"
  with assms show "erase st x y = Inr (st, None)" by (rule erase_empty_tile)
qed

theorem erase_sets_last_position_witness:
  "(isErasing (run initial [PointerDown 2 (Num 0) (Num 0), PointerDown 0 (Num 50) (Num 50), PointerUp 0]) \<and> \<not> withinSquare (Num 100) (Num 100) (lastX (run initial [PointerDown 2 (Num 0) (Num 0), PointerDown 0 (Num 50) (Num 50), PointerUp 0])) (lastY (run initial [PointerDown 2 (Num 0) (Num 0), PointerDown 0 (Num 50) (Num 50), PointerUp 0])) (Num 5) \<and>
    getTile (onScreenTiles (run initial [PointerDown 2 (Num 0) (Num 0), PointerDown 0 (Num 50) (Num 50), PointerUp 0])) (Num 100) (Num 100) = Some 0 \<and> \<not> isEmpty (onScreenTiles (run initial [PointerDown 2 (Num 0) (Num 0), PointerDown 0 (Num 50) (Num 50), PointerUp 0]) ! 0)) \<and>
   (\<exists>st' r. erase (run initial [PointerDown 2 (Num 0) (Num 0), PointerDown 0 (Num 50) (Num 50), PointerUp 0]) (Num 100) (Num 100) = Inr (st', r) \<and> lastX st' = Num 100 \<and> lastY st' = Num 100) \<and>
   (isErasing (run initial [PointerDown 2 (Num 0) (Num 0)]) \<and> \<not> withinSquare (Num 100) (Num 100) (lastX (run initial [PointerDown 2 (Num 0) (Num 0)])) (lastY (run initial [PointerDown 2 (Num 0) (Num 0)])) (Num 5) \<and>
    getTile (onScreenTiles (run initial [PointerDown 2 (Num 0) (Num 0)])) (Num 100) (Num 100) = Some 0 \<and> isEmpty (onScreenTiles (run initial [PointerDown 2 (Num 0) (Num 0)]) ! 0)) \<and>
   erase (run initial [PointerDown 2 (Num 0) (Num 0)]) (Num 100) (Num 100) = Inr ((run initial [PointerDown 2 (Num 0) (Num 0)]), None)"
proof -
  let ?s1 = "(run initial [PointerDown 2 (Num 0) (Num 0), PointerDown 0 (Num 50) (Num 50), PointerUp 0])"
  let ?s0 = "(run initial [PointerDown 2 (Num 0) (Num 0)])"
  have a: "isErasing ?s1" "\<not> withinSquare (Num 100) (Num 100) (lastX ?s1) (lastY ?s1) (Num 5)"
    "getTile (onScreenTiles ?s1) (Num 100) (Num 100) = Some 0" "\<not> isEmpty (onScreenTiles ?s1 ! 0)"
    by code_simp+
  have b: "isErasing ?s0" "\<not> withinSquare (Num 100) (Num 100) (lastX ?s0) (lastY ?s0) (Num 5)"
    "getTile (onScreenTiles ?s0) (Num 100) (Num 100) = Some 0" "isEmpty (onScreenTiles ?s0 ! 0)"
    by code_simp+
  from erase_sets_last_position[OF a(1,2,3)] a(4)
  have c: "\<exists>st' r. erase ?s1 (Num 100) (Num 100) = Inr (st', r) \<and> lastX st' = Num 100 \<and> lastY st' = Num 100"
    by blast
  from erase_sets_last_position[OF b(1,2,3)] b(4)
  have d: "erase ?s0 (Num 100) (Num 100) = Inr (?s0, None)" by blast
  from a b c d show ?thesis by blast
qed

text \<open>
  The claim as written fails on an empty tile: the event at \<open>(100,100)\<close> is not
  suppressed, and the last position stays \<open>(0,0)\<close>.
\<close>

theorem erase_empty_tile_keeps_last_counterexample:
  "isErasing (initial\<lparr>isErasing := True\<rparr>) \<and>
   \<not> withinSquare (Num 100) (Num 100) (lastX (initial\<lparr>isErasing := True\<rparr>))
        (lastY (initial\<lparr>isErasing := True\<rparr>)) (Num 5) \<and>
   erase (initial\<lparr>isErasing := True\<rparr>) (Num 100) (Num 100) = Inr (initial\<lparr>isErasing := True\<rparr>, None) \<and>
   lastX (initial\<lparr>isErasing := True\<rparr>) \<noteq> Num 100 \<and>
   lastY (initial\<lparr>isErasing := True\<rparr>) \<noteq> Num 100"
  by (simp add: erase_def initial_def withinSquare_def new_Stroke_def
      new_Tile_def Tile_size_def enclosesVertex_def isEmpty_def)

text \<open>
  Claim C6. The claim does not hold of the code: once the component is mounted, a press
  of the secondary button at \<open>(2500,100)\<close>, a point that no tile encloses, makes
  \<open>getTile\<close> return \<open>null\<close> and \<open>erase\<close> throw a \<open>TypeError\<close> at
  \<open>currentTile.isEmpty()\<close>. Nothing is removed and the state is the one \<open>startErase\<close>
  left.
\<close>

theorem erase_outside_tiles_throws:
  "getTile (onScreenTiles initial) (Num 2500) (Num 100) = None \<and>
   erase (initial\<lparr>isErasing := True\<rparr>) (Num 2500) (Num 100) = Inl (TypeError, initial\<lparr>isErasing := True\<rparr>) \<and>
   handleEvent initial (PointerDown 2 (Num 2500) (Num 100)) = Inl (TypeError, initial\<lparr>isErasing := True\<rparr>)"
  by (simp add: pointerDown_def startErase_def erase_def initial_def withinSquare_def new_Stroke_def
      new_Tile_def Tile_size_def enclosesVertex_def)

text \<open>
  Claim C2. Let a tile hold the stroke \<open>A\<close>, added first, and the stroke \<open>B\<close>, added
  second, each with a vertex within the erase radius of \<open>P\<close>. An erase at \<open>P\<close> that is
  not suppressed removes \<open>B\<close>: the tile then holds \<open>A\<close> alone, which is what is redrawn,
  and the last position is \<open>P\<close>. From that state, with the last position anywhere
  outside the square of \<open>P\<close>, the next erase at \<open>P\<close> removes \<open>A\<close> and leaves the tile
  empty.
\<close>

theorem erase_newest_first:
  assumes tile: "getTile (onScreenTiles st) px py = Some k"
    and AB: "onScreenTiles st ! k = addStroke (addStroke (new_Tile x0 y0) A) B"
    and ids: "getID A \<noteq> getID B"
    and hitA: "strokeHit A px py (Num 5)" and hitB: "strokeHit B px py (Num 5)"
    and er: "isErasing st" and far: "\<not> withinSquare px py (lastX st) (lastY st) (Num 5)"
  shows "\<exists>st1. erase st px py = Inr (st1, Some [A]) \<and>
           getStrokes (onScreenTiles st1 ! k) = [A] \<and> lastX st1 = px \<and> lastY st1 = py \<and>
           (\<forall>lx ly. \<not> withinSquare px py lx ly (Num 5) \<longrightarrow>
              (\<exists>st2. erase (st1\<lparr>lastX := lx, lastY := ly\<rparr>) px py = Inr (st2, Some []) \<and>
                     getStrokes (onScreenTiles st2 ! k) = []))"
proof -
  let ?t = "onScreenTiles st ! k"
  let ?t1 = "removeStroke ?t (getID B)"
  let ?st1 = "st\<lparr>lastX := px, lastY := py, onScreenTiles := (onScreenTiles st)[k := ?t1]\<rparr>"
  from tile have k: "k < length (onScreenTiles st)" by (simp add: getTile_Some)
  have s: "strokes ?t = [A, B]" and i: "strokeIDs ?t = [getID A, getID B]"
    by (simp_all add: AB addStroke_def new_Tile_def)
  have ne: "\<not> isEmpty ?t" by (simp add: isEmpty_def i)
  have loop: "eraseLoop (strokes ?t) px py (Num 5) (length (strokes ?t)) = Some 1"
    using hitB by (simp add: s eval_nat_numeral)
  have mB: "getID B \<in> set (strokeIDs ?t)" by (simp add: i)
  have s1: "strokes ?t1 = [A]" and i1: "strokeIDs ?t1 = [getID A]"
    using ids by (simp_all add: removeStroke_member[OF mB] s i)
  have e1: "erase st px py = Inr (?st1, Some [A])"
    using erase_hit[OF er far tile ne loop] by (simp add: s)
  have second: "\<exists>st2. erase (?st1\<lparr>lastX := lx, lastY := ly\<rparr>) px py = Inr (st2, Some []) \<and>
                     getStrokes (onScreenTiles st2 ! k) = []"
    if far2: "\<not> withinSquare px py lx ly (Num 5)" for lx ly
  proof -
    let ?s = "?st1\<lparr>lastX := lx, lastY := ly\<rparr>"
    let ?t2 = "removeStroke ?t1 (getID A)"
    have er2: "isErasing ?s" using er by simp
    have far2': "\<not> withinSquare px py (lastX ?s) (lastY ?s) (Num 5)" using far2 by simp
    have tile2: "getTile (onScreenTiles ?s) px py = Some k"
      using getTile_update[OF k, of ?t1 px py] tile by (simp add: enclosesVertex_removeStroke)
    have tk: "onScreenTiles ?s ! k = ?t1" using k by simp
    have ne2: "\<not> isEmpty (onScreenTiles ?s ! k)" unfolding tk by (simp add: isEmpty_def i1)
    have loop2: "eraseLoop (strokes (onScreenTiles ?s ! k)) px py (Num 5)
                   (length (strokes (onScreenTiles ?s ! k))) = Some 0"
      unfolding tk using hitA by (simp add: s1)
    have mA: "getID A \<in> set (strokeIDs ?t1)" by (simp only: i1) simp
    have s2: "strokes ?t2 = []" by (simp only: removeStroke_member(1)[OF mA] s1) simp
    from erase_hit[OF er2 far2' tile2 ne2 loop2] k s2 show ?thesis
      by (simp add: s1 getStrokes_def)
  qed
  have "getStrokes (onScreenTiles ?st1 ! k) = [A]" using k by (simp add: getStrokes_def s1)
  with e1 second show ?thesis by (intro exI[of _ ?st1]) simp
qed

theorem erase_newest_first_witness:
  "getTile (onScreenTiles (run initial [PointerDown 2 (Num 0) (Num 0), PointerDown 0 (Num 50) (Num 50), PointerUp 0,
      PointerDown 0 (Num 52) (Num 48), PointerUp 0])) (Num 50) (Num 50) = Some 0 \<and>
   onScreenTiles (run initial [PointerDown 2 (Num 0) (Num 0), PointerDown 0 (Num 50) (Num 50), PointerUp 0,
      PointerDown 0 (Num 52) (Num 48), PointerUp 0]) ! 0 = addStroke (addStroke (new_Tile (Num 0) (Num 0)) \<lparr>path = [Num 50, Num 50], startX = Some (Num 50), startY = Some (Num 50), sid = 0\<rparr>) \<lparr>path = [Num 52, Num 48], startX = Some (Num 52), startY = Some (Num 48), sid = 1\<rparr> \<and>
   getID \<lparr>path = [Num 50, Num 50], startX = Some (Num 50), startY = Some (Num 50), sid = 0\<rparr> \<noteq> getID \<lparr>path = [Num 52, Num 48], startX = Some (Num 52), startY = Some (Num 48), sid = 1\<rparr> \<and>
   strokeHit \<lparr>path = [Num 50, Num 50], startX = Some (Num 50), startY = Some (Num 50), sid = 0\<rparr> (Num 50) (Num 50) (Num 5) \<and>
   strokeHit \<lparr>path = [Num 52, Num 48], startX = Some (Num 52), startY = Some (Num 48), sid = 1\<rparr> (Num 50) (Num 50) (Num 5) \<and>
   isErasing (run initial [PointerDown 2 (Num 0) (Num 0), PointerDown 0 (Num 50) (Num 50), PointerUp 0,
      PointerDown 0 (Num 52) (Num 48), PointerUp 0]) \<and>
   \<not> withinSquare (Num 50) (Num 50) (lastX (run initial [PointerDown 2 (Num 0) (Num 0), PointerDown 0 (Num 50) (Num 50), PointerUp 0,
      PointerDown 0 (Num 52) (Num 48), PointerUp 0])) (lastY (run initial [PointerDown 2 (Num 0) (Num 0), PointerDown 0 (Num 50) (Num 50), PointerUp 0,
      PointerDown 0 (Num 52) (Num 48), PointerUp 0])) (Num 5) \<and>
   \<not> withinSquare (Num 50) (Num 50) (Num 0) (Num 0) (Num 5) \<and>
   (\<exists>st1. erase (run initial [PointerDown 2 (Num 0) (Num 0), PointerDown 0 (Num 50) (Num 50), PointerUp 0,
      PointerDown 0 (Num 52) (Num 48), PointerUp 0]) (Num 50) (Num 50) = Inr (st1, Some [\<lparr>path = [Num 50, Num 50], startX = Some (Num 50), startY = Some (Num 50), sid = 0\<rparr>]) \<and>
      (\<exists>st2. erase (st1\<lparr>lastX := Num 0, lastY := Num 0\<rparr>) (Num 50) (Num 50) = Inr (st2, Some []) \<and>
             getStrokes (onScreenTiles st2 ! 0) = []))"
proof -
  let ?s = "(run initial [PointerDown 2 (Num 0) (Num 0), PointerDown 0 (Num 50) (Num 50), PointerUp 0,
      PointerDown 0 (Num 52) (Num 48), PointerUp 0])"
  let ?A = "\<lparr>path = [Num 50, Num 50], startX = Some (Num 50), startY = Some (Num 50), sid = 0\<rparr>"
  let ?B = "\<lparr>path = [Num 52, Num 48], startX = Some (Num 52), startY = Some (Num 48), sid = 1\<rparr>"
  have h: "getTile (onScreenTiles ?s) (Num 50) (Num 50) = Some 0"
    "onScreenTiles ?s ! 0 = addStroke (addStroke (new_Tile (Num 0) (Num 0)) ?A) ?B"
    "getID ?A \<noteq> getID ?B"
    "strokeHit ?A (Num 50) (Num 50) (Num 5)"
    "strokeHit ?B (Num 50) (Num 50) (Num 5)"
    "isErasing ?s"
    "\<not> withinSquare (Num 50) (Num 50) (lastX ?s) (lastY ?s) (Num 5)"
    by code_simp+
  have f: "\<not> withinSquare (Num 50) (Num 50) (Num 0) (Num 0) (Num 5)" by code_simp
  from erase_newest_first[OF h] f
  have "\<exists>st1. erase ?s (Num 50) (Num 50) = Inr (st1, Some [?A]) \<and>
      (\<exists>st2. erase (st1\<lparr>lastX := Num 0, lastY := Num 0\<rparr>) (Num 50) (Num 50) = Inr (st2, Some []) \<and>
             getStrokes (onScreenTiles st2 ! 0) = [])"
    by blast
  with h f show ?thesis by blast
qed

lemma erase_reachable_result:
  assumes "reachable st"
  shows "(\<forall>e st'. erase st x y = Inl (e, st') \<longrightarrow> st' = st) \<and>
         (\<forall>st' r. erase st x y = Inr (st', r) \<longrightarrow>
            onScreenTiles st' = onScreenTiles st \<or>
            (\<exists>k i. getTile (onScreenTiles st) x y = Some k \<and> i < numElements (onScreenTiles st ! k) \<and>
               strokeHit (getStrokes (onScreenTiles st ! k) ! i) x y (Num 5) \<and>
               (\<forall>j. i < j \<and> j < numElements (onScreenTiles st ! k) \<longrightarrow>
                  \<not> strokeHit (getStrokes (onScreenTiles st ! k) ! j) x y (Num 5)) \<and>
               onScreenTiles st' = (onScreenTiles st)[k := onScreenTiles st' ! k] \<and>
               getStrokes (onScreenTiles st' ! k) =
                 take i (getStrokes (onScreenTiles st ! k)) @ drop (Suc i) (getStrokes (onScreenTiles st ! k)) \<and>
               numElements (onScreenTiles st' ! k) + 1 = numElements (onScreenTiles st ! k) \<and>
               r = Some (getStrokes (onScreenTiles st' ! k))))"
proof -
  from assms have ok: "canvas_ok st" by (rule reachable_ok)
  show ?thesis
  proof (cases "isErasing st \<and> \<not> withinSquare x y (lastX st) (lastY st) (Num 5)")
    case False
    then have "erase st x y = Inr (st, None)" by (auto simp: erase_not_erasing erase_suppress)
    then show ?thesis by simp
  next
    case c: True
    show ?thesis
    proof (cases "getTile (onScreenTiles st) x y")
      case None
      with c show ?thesis by (simp add: erase_no_tile)
    next
      case tile: (Some k)
      then have k: "k < length (onScreenTiles st)" by (simp add: getTile_Some)
      let ?t = "onScreenTiles st ! k"
      show ?thesis
      proof (cases "isEmpty ?t")
        case True
        with c tile show ?thesis by (simp add: erase_empty_tile)
      next
        case ne: False
        show ?thesis
        proof (cases "eraseLoop (strokes ?t) x y (Num 5) (length (strokes ?t))")
          case None
          with c tile ne show ?thesis by (simp add: erase_miss)
        next
          case (Some i)
          from eraseLoop_Some[OF Some]
          have i: "i < length (strokes ?t)" and hit: "strokeHit (strokes ?t ! i) x y (Num 5)"
            and newest: "\<forall>j. i < j \<and> j < length (strokes ?t) \<longrightarrow> \<not> strokeHit (strokes ?t ! j) x y (Num 5)"
            by blast+
          from ok k have "tile_ok (masterId st) ?t" by (simp add: canvas_ok_def)
          then have "strokeIDs ?t = map getID (strokes ?t)" "distinct (strokeIDs ?t)"
            unfolding tile_ok_def by blast+
          from removeStroke_nth[OF this i]
          have rem: "strokes (removeStroke ?t (getID (strokes ?t ! i))) = take i (strokes ?t) @ drop (Suc i) (strokes ?t)" .
          have len: "length (take i (strokes ?t) @ drop (Suc i) (strokes ?t)) + 1 = length (strokes ?t)"
            using i by simp
          from c have er: "isErasing st" and far: "\<not> withinSquare x y (lastX st) (lastY st) (Num 5)"
            by simp_all
          let ?t' = "removeStroke ?t (getID (strokes ?t ! i))"
          let ?r = "take i (strokes ?t) @ drop (Suc i) (strokes ?t)"
          let ?st' = "st\<lparr>lastX := x, lastY := y, onScreenTiles := (onScreenTiles st)[k := ?t']\<rparr>"
          have res: "erase st x y = Inr (?st', Some ?r)"
            by (rule erase_hit[OF er far tile ne Some])
          have tk: "onScreenTiles ?st' ! k = ?t'" using k by simp
          show ?thesis
          proof (intro conjI allI impI)
            fix e st'
            assume "erase st x y = Inl (e, st')"
            with res show "st' = st" by simp
          next
            fix st' r
            assume "erase st x y = Inr (st', r)"
            with res have st': "st' = ?st'" and r: "r = Some ?r" by simp_all
            have "\<exists>k i. getTile (onScreenTiles st) x y = Some k \<and> i < numElements (onScreenTiles st ! k) \<and>
               strokeHit (getStrokes (onScreenTiles st ! k) ! i) x y (Num 5) \<and>
               (\<forall>j. i < j \<and> j < numElements (onScreenTiles st ! k) \<longrightarrow>
                  \<not> strokeHit (getStrokes (onScreenTiles st ! k) ! j) x y (Num 5)) \<and>
               onScreenTiles st' = (onScreenTiles st)[k := onScreenTiles st' ! k] \<and>
               getStrokes (onScreenTiles st' ! k) =
                 take i (getStrokes (onScreenTiles st ! k)) @ drop (Suc i) (getStrokes (onScreenTiles st ! k)) \<and>
               numElements (onScreenTiles st' ! k) + 1 = numElements (onScreenTiles st ! k) \<and>
               r = Some (getStrokes (onScreenTiles st' ! k))"
            proof (intro exI conjI)
              show "getTile (onScreenTiles st) x y = Some k" by (rule tile)
              show "i < numElements (onScreenTiles st ! k)" using i by (simp add: numElements_def)
              show "strokeHit (getStrokes (onScreenTiles st ! k) ! i) x y (Num 5)"
                using hit by (simp add: getStrokes_def)
              show "\<forall>j. i < j \<and> j < numElements (onScreenTiles st ! k) \<longrightarrow>
                  \<not> strokeHit (getStrokes (onScreenTiles st ! k) ! j) x y (Num 5)"
                using newest by (simp add: getStrokes_def numElements_def)
              show "onScreenTiles st' = (onScreenTiles st)[k := onScreenTiles st' ! k]"
                unfolding st' using k by simp
              show "getStrokes (onScreenTiles st' ! k) =
                 take i (getStrokes (onScreenTiles st ! k)) @ drop (Suc i) (getStrokes (onScreenTiles st ! k))"
                unfolding st' using k rem by (simp add: getStrokes_def)
              show "numElements (onScreenTiles st' ! k) + 1 = numElements (onScreenTiles st ! k)"
                unfolding st' using k rem len by (simp add: numElements_def)
              show "r = Some (getStrokes (onScreenTiles st' ! k))"
                unfolding st' r using k rem by (simp add: getStrokes_def)
            qed
            then show "onScreenTiles st' = onScreenTiles st \<or>
              (\<exists>k i. getTile (onScreenTiles st) x y = Some k \<and> i < numElements (onScreenTiles st ! k) \<and>
               strokeHit (getStrokes (onScreenTiles st ! k) ! i) x y (Num 5) \<and>
               (\<forall>j. i < j \<and> j < numElements (onScreenTiles st ! k) \<longrightarrow>
                  \<not> strokeHit (getStrokes (onScreenTiles st ! k) ! j) x y (Num 5)) \<and>
               onScreenTiles st' = (onScreenTiles st)[k := onScreenTiles st' ! k] \<and>
               getStrokes (onScreenTiles st' ! k) =
                 take i (getStrokes (onScreenTiles st ! k)) @ drop (Suc i) (getStrokes (onScreenTiles st ! k)) \<and>
               numElements (onScreenTiles st' ! k) + 1 = numElements (onScreenTiles st ! k) \<and>
               r = Some (getStrokes (onScreenTiles st' ! k)))" ..
          qed
        qed
      qed
    qed
  qed
qed

text \<open>
  Claim C3. In every state the program can reach, at every pointer position, one call of
  \<open>erase\<close> removes at most one stroke. When it throws, the state is unchanged. When the
  event is an erase that is not suppressed and some stroke of the tile under the pointer
  has a vertex within the erase radius, \<open>erase\<close> returns and that tile has lost exactly
  one stroke: the newest one that is hit. No stroke of its id is left, every other
  stroke, hit or not, is still there in the same order, no other tile has changed, and
  the remaining list is what is redrawn. In every other case in which \<open>erase\<close> returns,
  no tile has changed and nothing is redrawn. With three strokes in the tile that all
  pass within the radius of the pointer, the newest is removed and the two older ones
  remain.
\<close>

theorem erase_removes_at_most_one:
  assumes "reachable st"
  shows "(\<forall>e st'. erase st x y = Inl (e, st') \<longrightarrow> st' = st) \<and>
         (\<forall>st' r. erase st x y = Inr (st', r) \<longrightarrow>
            onScreenTiles st' = onScreenTiles st \<or>
            (\<exists>k i. getTile (onScreenTiles st) x y = Some k \<and> i < numElements (onScreenTiles st ! k) \<and>
               strokeHit (getStrokes (onScreenTiles st ! k) ! i) x y (Num 5) \<and>
               (\<forall>j. i < j \<and> j < numElements (onScreenTiles st ! k) \<longrightarrow>
                  \<not> strokeHit (getStrokes (onScreenTiles st ! k) ! j) x y (Num 5)) \<and>
               onScreenTiles st' = (onScreenTiles st)[k := onScreenTiles st' ! k] \<and>
               getStrokes (onScreenTiles st' ! k) =
                 take i (getStrokes (onScreenTiles st ! k)) @ drop (Suc i) (getStrokes (onScreenTiles st ! k)) \<and>
               numElements (onScreenTiles st' ! k) + 1 = numElements (onScreenTiles st ! k) \<and>
               r = Some (getStrokes (onScreenTiles st' ! k)))) \<and>
         (isErasing st \<and> \<not> withinSquare x y (lastX st) (lastY st) (Num 5) \<and>
          getTile (onScreenTiles st) x y = Some k \<and>
          (\<exists>j < numElements (onScreenTiles st ! k).
             strokeHit (getStrokes (onScreenTiles st ! k) ! j) x y (Num 5)) \<longrightarrow>
            (\<exists>st' i. erase st x y = Inr (st', Some (getStrokes (onScreenTiles st' ! k))) \<and>
               i < numElements (onScreenTiles st ! k) \<and>
               strokeHit (getStrokes (onScreenTiles st ! k) ! i) x y (Num 5) \<and>
               (\<forall>j. i < j \<and> j < numElements (onScreenTiles st ! k) \<longrightarrow>
                  \<not> strokeHit (getStrokes (onScreenTiles st ! k) ! j) x y (Num 5)) \<and>
               onScreenTiles st' = (onScreenTiles st)[k := onScreenTiles st' ! k] \<and>
               getStrokes (onScreenTiles st' ! k) =
                 take i (getStrokes (onScreenTiles st ! k)) @ drop (Suc i) (getStrokes (onScreenTiles st ! k)) \<and>
               strokeIDs (onScreenTiles st' ! k) = map getID (getStrokes (onScreenTiles st' ! k)) \<and>
               getID (getStrokes (onScreenTiles st ! k) ! i) \<notin> set (strokeIDs (onScreenTiles st' ! k)) \<and>
               numElements (onScreenTiles st' ! k) + 1 = numElements (onScreenTiles st ! k))) \<and>
         (\<forall>st' r. erase st x y = Inr (st', r) \<and>
            \<not> (isErasing st \<and> \<not> withinSquare x y (lastX st) (lastY st) (Num 5) \<and>
               (\<exists>k. getTile (onScreenTiles st) x y = Some k \<and>
                  (\<exists>j < numElements (onScreenTiles st ! k).
                     strokeHit (getStrokes (onScreenTiles st ! k) ! j) x y (Num 5)))) \<longrightarrow>
            onScreenTiles st' = onScreenTiles st \<and> r = None) \<and>
         (isErasing st \<and> \<not> withinSquare x y (lastX st) (lastY st) (Num 5) \<and>
          getTile (onScreenTiles st) x y = Some k \<and> numElements (onScreenTiles st ! k) = 3 \<and>
          list_all (\<lambda>s. strokeHit s x y (Num 5)) (getStrokes (onScreenTiles st ! k)) \<longrightarrow>
            (\<exists>st' r. erase st x y = Inr (st', r) \<and> numElements (onScreenTiles st' ! k) = 2 \<and>
               getStrokes (onScreenTiles st' ! k) = take 2 (getStrokes (onScreenTiles st ! k))))"
proof -
  from assms have ok: "canvas_ok st" by (rule reachable_ok)
  have hitcase: "\<exists>st' i. erase st x y = Inr (st', Some (getStrokes (onScreenTiles st' ! k))) \<and>
               i < numElements (onScreenTiles st ! k) \<and>
               strokeHit (getStrokes (onScreenTiles st ! k) ! i) x y (Num 5) \<and>
               (\<forall>j. i < j \<and> j < numElements (onScreenTiles st ! k) \<longrightarrow>
                  \<not> strokeHit (getStrokes (onScreenTiles st ! k) ! j) x y (Num 5)) \<and>
               onScreenTiles st' = (onScreenTiles st)[k := onScreenTiles st' ! k] \<and>
               getStrokes (onScreenTiles st' ! k) =
                 take i (getStrokes (onScreenTiles st ! k)) @ drop (Suc i) (getStrokes (onScreenTiles st ! k)) \<and>
               strokeIDs (onScreenTiles st' ! k) = map getID (getStrokes (onScreenTiles st' ! k)) \<and>
               getID (getStrokes (onScreenTiles st ! k) ! i) \<notin> set (strokeIDs (onScreenTiles st' ! k)) \<and>
               numElements (onScreenTiles st' ! k) + 1 = numElements (onScreenTiles st ! k)"
    if h: "isErasing st \<and> \<not> withinSquare x y (lastX st) (lastY st) (Num 5) \<and>
          getTile (onScreenTiles st) x y = Some k \<and>
          (\<exists>j < numElements (onScreenTiles st ! k).
             strokeHit (getStrokes (onScreenTiles st ! k) ! j) x y (Num 5))"
  proof -
    let ?t = "onScreenTiles st ! k"
    let ?ss = "strokes ?t"
    from h have tile: "getTile (onScreenTiles st) x y = Some k" and er: "isErasing st"
      and far: "\<not> withinSquare x y (lastX st) (lastY st) (Num 5)"
      and some: "\<exists>j < length ?ss. strokeHit (?ss ! j) x y (Num 5)"
      by (simp_all add: numElements_def getStrokes_def)
    from tile have k: "k < length (onScreenTiles st)" by (simp add: getTile_Some)
    with ok have "tile_ok (masterId st) ?t" by (simp add: canvas_ok_def)
    then have ids: "strokeIDs ?t = map getID ?ss" and d: "distinct (strokeIDs ?t)"
      unfolding tile_ok_def by blast+
    from some have "?ss \<noteq> []" by auto
    with ids have ne: "\<not> isEmpty ?t" by (simp add: isEmpty_def)
    from some have "eraseLoop ?ss x y (Num 5) (length ?ss) \<noteq> None"
      by (simp add: eraseLoop_None)
    then obtain i where loop: "eraseLoop ?ss x y (Num 5) (length ?ss) = Some i" by blast
    from eraseLoop_Some[OF loop]
    have i: "i < length ?ss" and hit: "strokeHit (?ss ! i) x y (Num 5)"
      and newest: "\<forall>j. i < j \<and> j < length ?ss \<longrightarrow> \<not> strokeHit (?ss ! j) x y (Num 5)"
      by blast+
    let ?t' = "removeStroke ?t (getID (?ss ! i))"
    let ?st' = "st\<lparr>lastX := x, lastY := y, onScreenTiles := (onScreenTiles st)[k := ?t']\<rparr>"
    from removeStroke_nth[OF ids d i]
    have rem: "strokes ?t' = take i ?ss @ drop (Suc i) ?ss" .
    have ids': "strokeIDs ?t' = map getID (strokes ?t')"
      using ids by (simp add: removeStroke_def filter_map comp_def)
    from i ids have mem: "getID (?ss ! i) \<in> set (strokeIDs ?t)" by simp
    have gone: "getID (?ss ! i) \<notin> set (strokeIDs ?t')"
      by (simp add: removeStroke_member(2)[OF mem])
    have tk: "onScreenTiles ?st' ! k = ?t'" using k by simp
    have res: "erase st x y = Inr (?st', Some (take i ?ss @ drop (Suc i) ?ss))"
      by (rule erase_hit[OF er far tile ne loop])
    show ?thesis
    proof (intro exI conjI)
      show "erase st x y = Inr (?st', Some (getStrokes (onScreenTiles ?st' ! k)))"
        unfolding tk getStrokes_def rem by (rule res)
      show "i < numElements ?t" using i by (simp add: numElements_def)
      show "strokeHit (getStrokes ?t ! i) x y (Num 5)" using hit by (simp add: getStrokes_def)
      show "\<forall>j. i < j \<and> j < numElements ?t \<longrightarrow> \<not> strokeHit (getStrokes ?t ! j) x y (Num 5)"
        using newest by (simp add: getStrokes_def numElements_def)
      show "onScreenTiles ?st' = (onScreenTiles st)[k := onScreenTiles ?st' ! k]"
        using k by simp
      show "getStrokes (onScreenTiles ?st' ! k) = take i (getStrokes ?t) @ drop (Suc i) (getStrokes ?t)"
        unfolding tk getStrokes_def by (rule rem)
      show "strokeIDs (onScreenTiles ?st' ! k) = map getID (getStrokes (onScreenTiles ?st' ! k))"
        unfolding tk getStrokes_def by (rule ids')
      show "getID (getStrokes ?t ! i) \<notin> set (strokeIDs (onScreenTiles ?st' ! k))"
        unfolding tk getStrokes_def by (rule gone)
      show "numElements (onScreenTiles ?st' ! k) + 1 = numElements ?t"
        unfolding tk numElements_def rem using i by simp
    qed
  qed
  have nohit: "onScreenTiles st' = onScreenTiles st \<and> r = None"
    if h: "erase st x y = Inr (st', r) \<and>
            \<not> (isErasing st \<and> \<not> withinSquare x y (lastX st) (lastY st) (Num 5) \<and>
               (\<exists>k. getTile (onScreenTiles st) x y = Some k \<and>
                  (\<exists>j < numElements (onScreenTiles st ! k).
                     strokeHit (getStrokes (onScreenTiles st ! k) ! j) x y (Num 5))))" for st' r
  proof (cases "isErasing st \<and> \<not> withinSquare x y (lastX st) (lastY st) (Num 5)")
    case False
    then have "erase st x y = Inr (st, None)" by (auto simp: erase_not_erasing erase_suppress)
    with h show ?thesis by simp
  next
    case c: True
    show ?thesis
    proof (cases "getTile (onScreenTiles st) x y")
      case None
      with c h show ?thesis by (simp add: erase_no_tile)
    next
      case tile: (Some k')
      let ?t = "onScreenTiles st ! k'"
      from h c tile have none: "\<forall>j < length (strokes ?t). \<not> strokeHit (strokes ?t ! j) x y (Num 5)"
        by (simp add: numElements_def getStrokes_def)
      then have loop: "eraseLoop (strokes ?t) x y (Num 5) (length (strokes ?t)) = None"
        by (simp add: eraseLoop_None)
      show ?thesis
      proof (cases "isEmpty ?t")
        case True
        with c tile h show ?thesis by (simp add: erase_empty_tile)
      next
        case False
        from c have "isErasing st" "\<not> withinSquare x y (lastX st) (lastY st) (Num 5)" by simp_all
        from erase_miss[OF this tile False loop] h show ?thesis by auto
      qed
    qed
  qed
  have three: "\<exists>st' r. erase st x y = Inr (st', r) \<and> numElements (onScreenTiles st' ! k) = 2 \<and>
               getStrokes (onScreenTiles st' ! k) = take 2 (getStrokes (onScreenTiles st ! k))"
    if h: "isErasing st \<and> \<not> withinSquare x y (lastX st) (lastY st) (Num 5) \<and>
          getTile (onScreenTiles st) x y = Some k \<and> numElements (onScreenTiles st ! k) = 3 \<and>
          list_all (\<lambda>s. strokeHit s x y (Num 5)) (getStrokes (onScreenTiles st ! k))"
  proof -
    let ?t = "onScreenTiles st ! k"
    from h have tile: "getTile (onScreenTiles st) x y = Some k" and er: "isErasing st"
      and far: "\<not> withinSquare x y (lastX st) (lastY st) (Num 5)"
      and len: "length (strokes ?t) = 3"
      and all: "list_all (\<lambda>s. strokeHit s x y (Num 5)) (strokes ?t)"
      by (simp_all add: numElements_def getStrokes_def)
    from tile have k: "k < length (onScreenTiles st)" by (simp add: getTile_Some)
    with ok have "tile_ok (masterId st) ?t" by (simp add: canvas_ok_def)
    then have ids: "strokeIDs ?t = map getID (strokes ?t)" and d: "distinct (strokeIDs ?t)"
      unfolding tile_ok_def by blast+
    from ids len have ne: "\<not> isEmpty ?t" by (simp add: isEmpty_def)
    from all len have "strokeHit (strokes ?t ! 2) x y (Num 5)" by (simp add: list_all_length)
    with len have loop: "eraseLoop (strokes ?t) x y (Num 5) (length (strokes ?t)) = Some 2"
      by (simp add: eval_nat_numeral)
    from len have i: "2 < length (strokes ?t)" by simp
    from removeStroke_nth[OF ids d i] len
    have rem: "strokes (removeStroke ?t (getID (strokes ?t ! 2))) = take 2 (strokes ?t)"
      by (simp add: eval_nat_numeral)
    from erase_hit[OF er far tile ne loop] k rem len show ?thesis
      by (simp add: numElements_def getStrokes_def)
  qed
  from erase_reachable_result[OF assms, of x y] hitcase nohit three show ?thesis by blast
qed

theorem erase_removes_at_most_one_witness:
  "reachable (run initial [PointerDown 2 (Num 0) (Num 0), PointerDown 0 (Num 50) (Num 50), PointerUp 0,
      PointerDown 0 (Num 52) (Num 48), PointerUp 0, PointerDown 0 (Num 49) (Num 51), PointerUp 0]) \<and>
   (isErasing (run initial [PointerDown 2 (Num 0) (Num 0), PointerDown 0 (Num 50) (Num 50), PointerUp 0,
      PointerDown 0 (Num 52) (Num 48), PointerUp 0, PointerDown 0 (Num 49) (Num 51), PointerUp 0]) \<and> \<not> withinSquare (Num 50) (Num 50) (lastX (run initial [PointerDown 2 (Num 0) (Num 0), PointerDown 0 (Num 50) (Num 50), PointerUp 0,
      PointerDown 0 (Num 52) (Num 48), PointerUp 0, PointerDown 0 (Num 49) (Num 51), PointerUp 0])) (lastY (run initial [PointerDown 2 (Num 0) (Num 0), PointerDown 0 (Num 50) (Num 50), PointerUp 0,
      PointerDown 0 (Num 52) (Num 48), PointerUp 0, PointerDown 0 (Num 49) (Num 51), PointerUp 0])) (Num 5) \<and>
    getTile (onScreenTiles (run initial [PointerDown 2 (Num 0) (Num 0), PointerDown 0 (Num 50) (Num 50), PointerUp 0,
      PointerDown 0 (Num 52) (Num 48), PointerUp 0, PointerDown 0 (Num 49) (Num 51), PointerUp 0])) (Num 50) (Num 50) = Some 0 \<and> numElements (onScreenTiles (run initial [PointerDown 2 (Num 0) (Num 0), PointerDown 0 (Num 50) (Num 50), PointerUp 0,
      PointerDown 0 (Num 52) (Num 48), PointerUp 0, PointerDown 0 (Num 49) (Num 51), PointerUp 0]) ! 0) = 3 \<and>
    list_all (\<lambda>s. strokeHit s (Num 50) (Num 50) (Num 5)) (getStrokes (onScreenTiles (run initial [PointerDown 2 (Num 0) (Num 0), PointerDown 0 (Num 50) (Num 50), PointerUp 0,
      PointerDown 0 (Num 52) (Num 48), PointerUp 0, PointerDown 0 (Num 49) (Num 51), PointerUp 0]) ! 0))) \<and>
   (\<exists>st' r. erase (run initial [PointerDown 2 (Num 0) (Num 0), PointerDown 0 (Num 50) (Num 50), PointerUp 0,
      PointerDown 0 (Num 52) (Num 48), PointerUp 0, PointerDown 0 (Num 49) (Num 51), PointerUp 0]) (Num 50) (Num 50) = Inr (st', r) \<and> numElements (onScreenTiles st' ! 0) = 2 \<and>
      getStrokes (onScreenTiles st' ! 0) = take 2 (getStrokes (onScreenTiles (run initial [PointerDown 2 (Num 0) (Num 0), PointerDown 0 (Num 50) (Num 50), PointerUp 0,
      PointerDown 0 (Num 52) (Num 48), PointerUp 0, PointerDown 0 (Num 49) (Num 51), PointerUp 0]) ! 0))) \<and>
   reachable (run initial [PointerDown 2 (Num 0) (Num 0), PointerDown 0 (Num 50) (Num 50), PointerUp 0,
      PointerDown 0 (Num 100) (Num 100), PointerUp 0, PointerDown 0 (Num 52) (Num 48), PointerUp 0,
      PointerDown 0 (Num 200) (Num 200), PointerUp 0]) \<and>
   (isErasing (run initial [PointerDown 2 (Num 0) (Num 0), PointerDown 0 (Num 50) (Num 50), PointerUp 0,
      PointerDown 0 (Num 100) (Num 100), PointerUp 0, PointerDown 0 (Num 52) (Num 48), PointerUp 0,
      PointerDown 0 (Num 200) (Num 200), PointerUp 0]) \<and> \<not> withinSquare (Num 50) (Num 50) (lastX (run initial [PointerDown 2 (Num 0) (Num 0), PointerDown 0 (Num 50) (Num 50), PointerUp 0,
      PointerDown 0 (Num 100) (Num 100), PointerUp 0, PointerDown 0 (Num 52) (Num 48), PointerUp 0,
      PointerDown 0 (Num 200) (Num 200), PointerUp 0])) (lastY (run initial [PointerDown 2 (Num 0) (Num 0), PointerDown 0 (Num 50) (Num 50), PointerUp 0,
      PointerDown 0 (Num 100) (Num 100), PointerUp 0, PointerDown 0 (Num 52) (Num 48), PointerUp 0,
      PointerDown 0 (Num 200) (Num 200), PointerUp 0])) (Num 5) \<and>
    getTile (onScreenTiles (run initial [PointerDown 2 (Num 0) (Num 0), PointerDown 0 (Num 50) (Num 50), PointerUp 0,
      PointerDown 0 (Num 100) (Num 100), PointerUp 0, PointerDown 0 (Num 52) (Num 48), PointerUp 0,
      PointerDown 0 (Num 200) (Num 200), PointerUp 0])) (Num 50) (Num 50) = Some 0 \<and>
    map (\<lambda>s. strokeHit s (Num 50) (Num 50) (Num 5)) (getStrokes (onScreenTiles (run initial [PointerDown 2 (Num 0) (Num 0), PointerDown 0 (Num 50) (Num 50), PointerUp 0,
      PointerDown 0 (Num 100) (Num 100), PointerUp 0, PointerDown 0 (Num 52) (Num 48), PointerUp 0,
      PointerDown 0 (Num 200) (Num 200), PointerUp 0]) ! 0)) =
      [True, False, True, False]) \<and>
   (\<exists>st'. erase (run initial [PointerDown 2 (Num 0) (Num 0), PointerDown 0 (Num 50) (Num 50), PointerUp 0,
      PointerDown 0 (Num 100) (Num 100), PointerUp 0, PointerDown 0 (Num 52) (Num 48), PointerUp 0,
      PointerDown 0 (Num 200) (Num 200), PointerUp 0]) (Num 50) (Num 50) = Inr (st', Some (getStrokes (onScreenTiles st' ! 0))) \<and>
      map getID (getStrokes (onScreenTiles (run initial [PointerDown 2 (Num 0) (Num 0), PointerDown 0 (Num 50) (Num 50), PointerUp 0,
      PointerDown 0 (Num 100) (Num 100), PointerUp 0, PointerDown 0 (Num 52) (Num 48), PointerUp 0,
      PointerDown 0 (Num 200) (Num 200), PointerUp 0]) ! 0)) = [0, 1, 2, 3] \<and>
      map getID (getStrokes (onScreenTiles st' ! 0)) = [0, 1, 3] \<and>
      numElements (onScreenTiles st' ! 0) + 1 = numElements (onScreenTiles (run initial [PointerDown 2 (Num 0) (Num 0), PointerDown 0 (Num 50) (Num 50), PointerUp 0,
      PointerDown 0 (Num 100) (Num 100), PointerUp 0, PointerDown 0 (Num 52) (Num 48), PointerUp 0,
      PointerDown 0 (Num 200) (Num 200), PointerUp 0]) ! 0))"
proof -
  let ?s = "(run initial [PointerDown 2 (Num 0) (Num 0), PointerDown 0 (Num 50) (Num 50), PointerUp 0,
      PointerDown 0 (Num 52) (Num 48), PointerUp 0, PointerDown 0 (Num 49) (Num 51), PointerUp 0])"
  let ?u = "(run initial [PointerDown 2 (Num 0) (Num 0), PointerDown 0 (Num 50) (Num 50), PointerUp 0,
      PointerDown 0 (Num 100) (Num 100), PointerUp 0, PointerDown 0 (Num 52) (Num 48), PointerUp 0,
      PointerDown 0 (Num 200) (Num 200), PointerUp 0])"
  have r: "reachable ?s" by (intro reachable_run reachable_initial)
  have h: "isErasing ?s \<and> \<not> withinSquare (Num 50) (Num 50) (lastX ?s) (lastY ?s) (Num 5) \<and>
    getTile (onScreenTiles ?s) (Num 50) (Num 50) = Some 0 \<and> numElements (onScreenTiles ?s ! 0) = 3 \<and>
    list_all (\<lambda>s. strokeHit s (Num 50) (Num 50) (Num 5)) (getStrokes (onScreenTiles ?s ! 0))"
    by code_simp
  from erase_removes_at_most_one[OF r, of "Num 50" "Num 50" 0, THEN conjunct2, THEN conjunct2,
      THEN conjunct2, THEN conjunct2, THEN mp, OF h]
  have a: "\<exists>st' r. erase ?s (Num 50) (Num 50) = Inr (st', r) \<and> numElements (onScreenTiles st' ! 0) = 2 \<and>
      getStrokes (onScreenTiles st' ! 0) = take 2 (getStrokes (onScreenTiles ?s ! 0))" .
  have r4: "reachable ?u" by (intro reachable_run reachable_initial)
  have h4: "isErasing ?u \<and> \<not> withinSquare (Num 50) (Num 50) (lastX ?u) (lastY ?u) (Num 5) \<and>
    getTile (onScreenTiles ?u) (Num 50) (Num 50) = Some 0 \<and>
    map (\<lambda>s. strokeHit s (Num 50) (Num 50) (Num 5)) (getStrokes (onScreenTiles ?u ! 0)) =
      [True, False, True, False]"
    by code_simp
  have n4: "numElements (onScreenTiles ?u ! 0) = 4"
    and id4: "map getID (getStrokes (onScreenTiles ?u ! 0)) = [0, 1, 2, 3]"
    by code_simp+
  have hit4: "strokeHit (getStrokes (onScreenTiles ?u ! 0) ! j) (Num 50) (Num 50) (Num 5) \<longleftrightarrow> j = 0 \<or> j = 2"
    if "j < 4" for j
  proof -
    let ?ss = "getStrokes (onScreenTiles ?u ! 0)"
    from n4 that have "j < length ?ss" by (simp add: numElements_def getStrokes_def)
    then have "map (\<lambda>s. strokeHit s (Num 50) (Num 50) (Num 5)) ?ss ! j =
               strokeHit (?ss ! j) (Num 50) (Num 50) (Num 5)"
      by (rule nth_map)
    moreover from h4 have "map (\<lambda>s. strokeHit s (Num 50) (Num 50) (Num 5)) ?ss =
                           [True, False, True, False]" by (rule conjunct2[THEN conjunct2, THEN conjunct2])
    ultimately have e: "strokeHit (?ss ! j) (Num 50) (Num 50) (Num 5) = [True, False, True, False] ! j"
      by simp
    from that have "j = 0 \<or> j = 1 \<or> j = 2 \<or> j = 3" by linarith
    then show ?thesis unfolding e by (elim disjE) simp_all
  qed
  from hit4[of 2] have h2: "strokeHit (getStrokes (onScreenTiles ?u ! 0) ! 2) (Num 50) (Num 50) (Num 5)"
    by simp
  have ex: "\<exists>j < numElements (onScreenTiles ?u ! 0).
          strokeHit (getStrokes (onScreenTiles ?u ! 0) ! j) (Num 50) (Num 50) (Num 5)"
    unfolding n4
  proof (intro exI conjI)
    show "(2::nat) < 4" by simp
    show "strokeHit (getStrokes (onScreenTiles ?u ! 0) ! 2) (Num 50) (Num 50) (Num 5)" by (rule h2)
  qed
  from h4 ex
  have hyp: "isErasing ?u \<and> \<not> withinSquare (Num 50) (Num 50) (lastX ?u) (lastY ?u) (Num 5) \<and>
    getTile (onScreenTiles ?u) (Num 50) (Num 50) = Some 0 \<and>
    (\<exists>j < numElements (onScreenTiles ?u ! 0).
          strokeHit (getStrokes (onScreenTiles ?u ! 0) ! j) (Num 50) (Num 50) (Num 5))"
    by (intro conjI) (erule conjunct1, erule conjunct2[THEN conjunct1],
        erule conjunct2[THEN conjunct2, THEN conjunct1])
  from erase_removes_at_most_one[OF r4, of "Num 50" "Num 50" 0, THEN conjunct2, THEN conjunct2,
      THEN conjunct1, THEN mp, OF hyp]
  obtain st' i where e: "erase ?u (Num 50) (Num 50) = Inr (st', Some (getStrokes (onScreenTiles st' ! 0)))"
    and i: "i < numElements (onScreenTiles ?u ! 0)"
    and hi: "strokeHit (getStrokes (onScreenTiles ?u ! 0) ! i) (Num 50) (Num 50) (Num 5)"
    and newest: "\<forall>j. i < j \<and> j < numElements (onScreenTiles ?u ! 0) \<longrightarrow>
                  \<not> strokeHit (getStrokes (onScreenTiles ?u ! 0) ! j) (Num 50) (Num 50) (Num 5)"
    and s': "getStrokes (onScreenTiles st' ! 0) =
                 take i (getStrokes (onScreenTiles ?u ! 0)) @ drop (Suc i) (getStrokes (onScreenTiles ?u ! 0))"
    and n': "numElements (onScreenTiles st' ! 0) + 1 = numElements (onScreenTiles ?u ! 0)"
    by blast
  from i n4 hi hit4[of i] have "i = 0 \<or> i = 2" by simp
  moreover have "\<not> i < 2"
  proof
    assume "i < 2"
    with newest n4 have "\<not> strokeHit (getStrokes (onScreenTiles ?u ! 0) ! 2) (Num 50) (Num 50) (Num 5)"
      by simp
    with hit4[of 2] show False by simp
  qed
  ultimately have i2: "i = 2" by simp
  have "map getID (getStrokes (onScreenTiles st' ! 0)) =
        take 2 (map getID (getStrokes (onScreenTiles ?u ! 0))) @ drop 3 (map getID (getStrokes (onScreenTiles ?u ! 0)))"
    unfolding s' i2 by (simp add: take_map drop_map eval_nat_numeral)
  then have id': "map getID (getStrokes (onScreenTiles st' ! 0)) = [0, 1, 3]"
    unfolding id4 by simp
  have b: "\<exists>st'. erase ?u (Num 50) (Num 50) = Inr (st', Some (getStrokes (onScreenTiles st' ! 0))) \<and>
      map getID (getStrokes (onScreenTiles ?u ! 0)) = [0, 1, 2, 3] \<and>
      map getID (getStrokes (onScreenTiles st' ! 0)) = [0, 1, 3] \<and>
      numElements (onScreenTiles st' ! 0) + 1 = numElements (onScreenTiles ?u ! 0)"
    by (rule exI[of _ st']) (intro conjI e id4 id' n')
  show ?thesis
    by (rule conjI[OF r conjI[OF h conjI[OF a conjI[OF r4 conjI[OF h4 b]]]]])
qed

end
